theory Spec2Isabelle
  imports Complex_Main
begin

section \<open>Calcium: \<open>ca_check_equal\<close> (src/ca/check_equal.c)\<close>

text \<open>
  \<open>truth_t\<close> is the three-valued result type of the predicates of Calcium.
\<close>

datatype truth_t = T_TRUE | T_FALSE | T_UNKNOWN

text \<open>
  An \<open>fmpq\<close> is a fraction kept in canonical form (positive denominator, numerator and
  denominator coprime); this is the invariant of the type in FLINT. The HOL type of
  canonical fractions is \<open>rat\<close>: \<open>quotient_of\<close> gives the canonical numerator and
  denominator.
\<close>

type_synonym fmpq = rat

definition fmpq_numref :: "fmpq \<Rightarrow> int" where
  "fmpq_numref q = fst (quotient_of q)"

definition fmpq_denref :: "fmpq \<Rightarrow> int" where
  "fmpq_denref q = snd (quotient_of q)"

text \<open>
  Modelled from the spec: \<open>fmpq_equal\<close> is not under src/ (only its caller
  \<open>ca_check_equal\<close> is). It is the equality test of two fractions: numerators equal and
  denominators equal.
\<close>

definition fmpq_equal :: "fmpq \<Rightarrow> fmpq \<Rightarrow> bool" where
  "fmpq_equal a b \<longleftrightarrow> fmpq_numref a = fmpq_numref b \<and> fmpq_denref a = fmpq_denref b"

text \<open>
  A \<open>ca_struct\<close> holds the index of its field and the element, a union whose member
  \<open>q\<close> is the one read by \<open>ca_check_equal\<close>; \<open>elem_q\<close> is that member.
  The macros \<open>CA_FIELD_ID_QQ\<close> and \<open>CA_FMPQ\<close> are declared in ca.h, which is not under
  src/: the first is the index of the rational field, the second selects \<open>elem.q\<close>.
\<close>

record ca =
  field :: int
  elem_q :: fmpq

definition CA_FIELD_ID_QQ :: int where
  "CA_FIELD_ID_QQ = 0"

definition CA_FMPQ :: "ca \<Rightarrow> fmpq" where
  "CA_FMPQ x = elem_q x"

text \<open>
  The function returns its truth value; the model returns with it the two operands and
  the context as they are on return, so that what the call leaves unchanged can be stated.
\<close>

definition ca_check_equal :: "ca \<Rightarrow> ca \<Rightarrow> 'ctx \<Rightarrow> truth_t \<times> ca \<times> ca \<times> 'ctx" where
  "ca_check_equal x y ctx =
     (if field x = CA_FIELD_ID_QQ \<and> field y = CA_FIELD_ID_QQ
      then ((if fmpq_equal (CA_FMPQ x) (CA_FMPQ y) then T_TRUE else T_FALSE), x, y, ctx)
      else (T_UNKNOWN, x, y, ctx))"


section \<open>C integers\<close>

text \<open>
  The values of \<open>long\<close> and \<open>unsigned long\<close> (\<open>mp_limb_t\<close>) are modelled as
  integers, and every operation whose result is stored in one of the two types is checked
  against the range of the type: a result out of range is the fault \<open>Overflow\<close> (a signed
  overflow is undefined in C, an unsigned one wraps around, a conversion of a negative value
  to \<open>unsigned long\<close> wraps around too). A function that returns \<open>Inr\<close> has therefore run
  without any overflow or wrap-around. \<open>Abort\<close> is a call of \<open>abort()\<close>.
  The macro \<open>FLINT_BITS\<close> is not under src/; it is the width of a limb, 64.
\<close>

datatype c_fault = Abort | Overflow | Division_by_zero | Undefined_shift | Uninitialised_read

definition FLINT_BITS :: nat where
  "FLINT_BITS = 64"

definition LONG_MAX :: int where
  "LONG_MAX = 2 ^ (FLINT_BITS - 1) - 1"

definition LONG_MIN :: int where
  "LONG_MIN = - (2 ^ (FLINT_BITS - 1))"

definition long_of :: "int \<Rightarrow> c_fault + int" where
  "long_of x = (if LONG_MIN \<le> x \<and> x \<le> LONG_MAX then Inr x else Inl Overflow)"

definition ulong_of :: "int \<Rightarrow> c_fault + nat" where
  "ulong_of x = (if 0 \<le> x \<and> x < 2 ^ FLINT_BITS then Inr (nat x) else Inl Overflow)"

text \<open>
  The conversion of a \<open>long\<close> to \<open>unsigned long\<close>, where the code relies on it (a
  comparison of a signed with an unsigned value converts the signed one).
\<close>

definition to_ulong :: "int \<Rightarrow> int" where
  "to_ulong x = x mod 2 ^ FLINT_BITS"

text \<open>The signed division of C truncates towards zero.\<close>

definition c_div :: "int \<Rightarrow> int \<Rightarrow> int" where
  "c_div a b = sgn a * sgn b * (\<bar>a\<bar> div \<bar>b\<bar>)"

definition seq :: "'e + 'a \<Rightarrow> ('a \<Rightarrow> 'e + 'b) \<Rightarrow> 'e + 'b" where
  "seq m f = (case m of Inl e \<Rightarrow> Inl e | Inr x \<Rightarrow> f x)"


section \<open>p-adic logarithm (src/padic/log.c)\<close>

subsection \<open>Helpers of \<open>ulong_extras\<close> and \<open>fmpz\<close>\<close>

text \<open>
  Modelled from the spec: \<open>n_flog\<close> and \<open>n_clog\<close> are not under src/. The comment of
  \<open>_padic_log_bound\<close> names what they compute: \<open>n_flog n b\<close> is the floor of the
  logarithm of \<open>n\<close> to the base \<open>b\<close>, \<open>n_clog n b\<close> its ceiling. They are only
  called with a base \<open>b \<ge> 2\<close> (a prime) and \<open>n \<ge> 1\<close>.
\<close>

function n_flog :: "nat \<Rightarrow> nat \<Rightarrow> nat" where
  "n_flog n b = (if b \<le> 1 \<or> n < b then 0 else Suc (n_flog (n div b) b))"
  by pat_completeness auto
termination
  by (relation "measure (\<lambda>(n, b). n)") auto

definition n_clog :: "nat \<Rightarrow> nat \<Rightarrow> nat" where
  "n_clog n b = (if n \<le> 1 then 0 else Suc (n_flog (n - 1) b))"

text \<open>
  Modelled from the spec: \<open>fmpz_remove\<close>, \<open>fmpz_bits\<close> and \<open>fmpz_fits_si\<close> are not
  under src/. \<open>fmpz_remove x p\<close> returns the number of times the factor \<open>p > 1\<close>
  divides \<open>x\<close>, that is the \<open>p\<close>-adic valuation of a non-zero \<open>x\<close> (the quotient it
  also produces is discarded by its caller); \<open>fmpz_bits\<close> is the number of bits of the
  absolute value; \<open>fmpz_fits_si\<close> tells whether the integer fits into a \<open>long\<close>.
\<close>

function fmpz_remove :: "int \<Rightarrow> int \<Rightarrow> nat" where
  "fmpz_remove x p =
     (if x = 0 \<or> p \<le> 1 \<or> \<not> p dvd x then 0 else Suc (fmpz_remove (x div p) p))"
  by pat_completeness auto
termination
proof (relation "measure (\<lambda>(x, p). nat \<bar>x\<bar>)")
  show "wf (measure (\<lambda>(x, p). nat \<bar>x\<bar>))"
    by simp
next
  fix x p :: int
  assume a: "\<not> (x = 0 \<or> p \<le> 1 \<or> \<not> p dvd x)"
  then obtain k where k: "x = p * k"
    by auto
  with a have "k \<noteq> 0" "1 < p"
    by auto
  then have "\<bar>k\<bar> < \<bar>p\<bar> * \<bar>k\<bar>"
    by simp
  then have "\<bar>x div p\<bar> < \<bar>x\<bar>"
    using k \<open>1 < p\<close> by (simp add: abs_mult)
  then show "((x div p, p), (x, p)) \<in> measure (\<lambda>(x, p). nat \<bar>x\<bar>)"
    by simp
qed

definition fmpz_bits :: "int \<Rightarrow> nat" where
  "fmpz_bits x = (if x = 0 then 0 else Suc (n_flog (nat \<bar>x\<bar>) 2))"

definition fmpz_fits_si :: "int \<Rightarrow> bool" where
  "fmpz_fits_si x \<longleftrightarrow> LONG_MIN \<le> x \<and> x \<le> LONG_MAX"

subsection \<open>\<open>_padic_log_bound\<close>\<close>

text \<open>
  The body of \<open>while (--b >= 2)\<close>, with the decrement: \<open>t = b * v - n_clog(b, p)\<close> is a
  signed product, converted to \<open>unsigned long\<close> for the subtraction and back to \<open>long\<close>
  by the assignment.
\<close>

definition padic_log_bound_t :: "int \<Rightarrow> int \<Rightarrow> nat \<Rightarrow> c_fault + int" where
  "padic_log_bound_t b v p =
     seq (long_of (b * v)) (\<lambda>bv.
     seq (ulong_of bv) (\<lambda>ubv.
     seq (ulong_of b) (\<lambda>ub.
     seq (ulong_of (int ubv - int (n_clog ub p))) (\<lambda>ut.
     long_of (int ut)))))"

function padic_log_bound_loop :: "int \<Rightarrow> int \<Rightarrow> int \<Rightarrow> nat \<Rightarrow> c_fault + int" where
  "padic_log_bound_loop b v N p =
     (case long_of (b - 1) of
        Inl e \<Rightarrow> Inl e
      | Inr b' \<Rightarrow>
          if b' \<ge> 2 then
            (case padic_log_bound_t b' v p of
               Inl e \<Rightarrow> Inl e
             | Inr t \<Rightarrow> if t < N then long_of (b' + 1) else padic_log_bound_loop b' v N p)
          else Inr 2)"
  by pat_completeness auto
termination
  by (relation "measure (\<lambda>(b, v, N, p). nat b)")
    (auto simp: long_of_def split: if_splits)

text \<open>
  \<open>_padic_log_bound\<close> (an Isabelle name cannot start with an underscore). In the first
  branch \<open>c = N - n_flog(v, p)\<close> and the numerator of \<open>b\<close> are computed in
  \<open>unsigned long\<close>, as \<open>n_flog\<close> and \<open>n_clog\<close> return \<open>mp_limb_t\<close>, and the division
  is the unsigned one; in the second branch the arithmetic is signed.
\<close>

definition padic_log_bound :: "int \<Rightarrow> int \<Rightarrow> int \<Rightarrow> c_fault + int" where
  "padic_log_bound v N prime =
     (if N \<ge> 2 ^ (FLINT_BITS - 2) then Inl Abort
      else if fmpz_fits_si prime then
        seq (ulong_of prime) (\<lambda>p.
        seq (ulong_of v) (\<lambda>uv.
        seq (ulong_of (N - int (n_flog uv p))) (\<lambda>uc.
        seq (long_of (int uc)) (\<lambda>c.
        seq (long_of (v - 1)) (\<lambda>v1.
        seq (ulong_of v1) (\<lambda>uv1.
        seq (ulong_of (int uc + int (n_clog uc p) + 1 + int uv1)) (\<lambda>s.
        if uv = 0 then Inl Division_by_zero
        else seq (long_of (int (s div uv))) (\<lambda>b.
             padic_log_bound_loop b v N p))))))))
      else
        seq (long_of (N + v)) (\<lambda>s.
        seq (long_of (s - 1)) (\<lambda>s1.
        if v = 0 then Inl Division_by_zero
        else long_of (c_div s1 v))))"


subsection \<open>\<open>padic_log\<close>\<close>

text \<open>
  A \<open>padic_t\<close> is a unit and a valuation (the macros \<open>padic_unit\<close> and \<open>padic_val\<close>),
  a context holds the prime \<open>p\<close> and the precision \<open>N\<close>.
\<close>

record padic =
  padic_unit :: int
  padic_val :: int

record padic_ctx =
  ctx_p :: int
  ctx_N :: int

text \<open>
  Modelled from the spec: \<open>padic_zero\<close>, \<open>padic_get_fmpz\<close> and \<open>_padic_canonicalise\<close>
  are not under src/. \<open>padic_zero\<close> sets unit and valuation to zero;
  \<open>padic_get_fmpz\<close> gives the integer \<open>u p\<^sup>v\<close> of a \<open>p\<close>-adic integer (it is only
  called with a valuation \<open>v \<ge> 0\<close>); \<open>_padic_canonicalise\<close> moves the powers of \<open>p\<close>
  from the unit to the valuation, and sets the valuation of zero to zero.
\<close>

definition padic_zero :: padic where
  "padic_zero = \<lparr>padic_unit = 0, padic_val = 0\<rparr>"

definition padic_get_fmpz :: "padic \<Rightarrow> padic_ctx \<Rightarrow> int" where
  "padic_get_fmpz op ctx = padic_unit op * ctx_p ctx ^ nat (padic_val op)"

definition padic_canonicalise :: "padic \<Rightarrow> padic_ctx \<Rightarrow> padic" where
  "padic_canonicalise rop ctx =
     (if padic_unit rop \<noteq> 0
      then \<lparr>padic_unit = padic_unit rop div ctx_p ctx ^ fmpz_remove (padic_unit rop) (ctx_p ctx),
            padic_val = padic_val rop + int (fmpz_remove (padic_unit rop) (ctx_p ctx))\<rparr>
      else rop\<lparr>padic_val := 0\<rparr>)"

text \<open>
  The two evaluations of the series \<open>z = - \<Sum> y\<^sup>i / i mod p\<^sup>N\<close>,
  \<open>_padic_log_rectangular\<close> and \<open>_padic_log_balanced\<close>, are not under src/: they are
  parameters of the model, functions of \<open>y\<close>, \<open>v\<close>, \<open>p\<close> and \<open>N\<close> that give \<open>z\<close>.
\<close>

record padic_series =
  padic_log_rectangular :: "int \<Rightarrow> int \<Rightarrow> int \<Rightarrow> int \<Rightarrow> int"
  padic_log_balanced :: "int \<Rightarrow> int \<Rightarrow> int \<Rightarrow> int \<Rightarrow> int"

text \<open>\<open>_padic_log\<close>: the choice between the two evaluations.\<close>

definition padic_log_series :: "padic_series \<Rightarrow> int \<Rightarrow> int \<Rightarrow> int \<Rightarrow> int \<Rightarrow> c_fault + int" where
  "padic_log_series S y v p N =
     (if fmpz_bits p = 0 then Inl Division_by_zero
      else if N < c_div (2 ^ 9) (int (fmpz_bits p))
      then Inr (padic_log_rectangular S y v p N)
      else Inr (padic_log_balanced S y v p N))"

text \<open>
  \<open>padic_log\<close> returns \<open>ans\<close> and writes \<open>rop\<close>: the model returns the pair of
  \<open>ans\<close> and of \<open>rop\<close> as it is on return.
\<close>

definition padic_log :: "padic_series \<Rightarrow> padic \<Rightarrow> padic \<Rightarrow> padic_ctx \<Rightarrow> c_fault + (int \<times> padic)" where
  "padic_log S rop op ctx =
     (if padic_val op < 0 then Inr (0, rop)
      else
        (let x = padic_get_fmpz op ctx;
             x = x - 1;
             x = - x
         in if x = 0 then Inr (1, padic_zero)
            else
              (let v = int (fmpz_remove x (ctx_p ctx))
               in if v \<ge> 2 \<or> (ctx_p ctx \<noteq> 2 \<and> v \<ge> 1) then
                    (if v \<ge> ctx_N ctx then Inr (1, padic_zero)
                     else seq (padic_log_series S x v (ctx_p ctx) (ctx_N ctx)) (\<lambda>z.
                          Inr (1, padic_canonicalise \<lparr>padic_unit = z, padic_val = 0\<rparr> ctx)))
                  else Inr (0, rop))))"


section \<open>Distances for theta characteristics (src/src/acb_theta/dist_a0.c)\<close>

subsection \<open>Data\<close>

text \<open>
  An \<open>arb_mat_t\<close> or \<open>acb_mat_t\<close> is a matrix struct: its numbers of rows and columns and
  its entries (row by row). The type of the real balls (\<open>arb_t\<close>, a midpoint and a radius)
  and the type of the complex balls (\<open>acb_t\<close>) are the type parameters \<open>'r\<close> and \<open>'c\<close>
  of the model: the arithmetic of balls is not under src/.
\<close>

record 'a mat =
  mat_r :: int
  mat_c :: int
  mat_entries :: "'a list"

definition acb_mat_nrows :: "'c mat \<Rightarrow> int" where
  "acb_mat_nrows m = mat_r m"

text \<open>
  Modelled from the spec: the operations that \<open>acb_theta_dist_a0\<close> calls are not under
  src/ (only their caller is). Each is a parameter of the model, a function from the
  operands it reads to the value it writes to its destination:
  \<^item> \<open>op_zero\<close>: the value of a freshly initialised ball (\<open>arb_mat_init\<close>, \<open>_arb_vec_init\<close>);
  \<^item> \<open>op_mat_get_imag\<close>: \<open>acb_mat_get_imag\<close>, the imaginary part of a complex matrix;
  \<^item> \<open>op_mat_inv\<close>: \<open>arb_mat_inv\<close>, the certified inverse at a precision (the flag it
    returns is dropped by the caller);
  \<^item> \<open>op_eld_cho\<close>: \<open>acb_theta_eld_cho\<close>, the Cholesky factor of the imaginary part;
  \<^item> \<open>op_vec_get_imag\<close>: \<open>_acb_vec_get_imag\<close>, the imaginary parts of the first \<open>g\<close>
    entries of a vector;
  \<^item> \<open>op_mat_vector_mul_col\<close>: \<open>arb_mat_vector_mul_col\<close>, matrix times column vector;
  \<^item> \<open>op_char_get_arb\<close>: \<open>acb_theta_char_get_arb\<close>, the offset vector in \<open>{0, 1/2}\<^sup>g\<close> of
    the bit pattern of the characteristic \<open>a\<close> (each set bit contributes 1/2 to its
    coordinate);
  \<^item> \<open>op_vec_add\<close>: \<open>_arb_vec_add\<close>, the sum of two vectors of length \<open>g\<close>;
  \<^item> \<open>op_dist_lat\<close>: \<open>acb_theta_dist_lat\<close>, the lattice distance of a vector for a Cholesky
    factor.
\<close>

record ('r, 'c) arb_ops =
  op_zero :: 'r
  op_mat_get_imag :: "'c mat \<Rightarrow> 'r mat"
  op_mat_inv :: "'r mat \<Rightarrow> int \<Rightarrow> 'r mat"
  op_eld_cho :: "'c mat \<Rightarrow> int \<Rightarrow> 'r mat"
  op_vec_get_imag :: "(nat \<Rightarrow> 'c) \<Rightarrow> int \<Rightarrow> 'r list"
  op_mat_vector_mul_col :: "'r mat \<Rightarrow> 'r list \<Rightarrow> int \<Rightarrow> 'r list"
  op_char_get_arb :: "nat \<Rightarrow> int \<Rightarrow> 'r list"
  op_vec_add :: "'r list \<Rightarrow> 'r list \<Rightarrow> int \<Rightarrow> int \<Rightarrow> 'r list"
  op_dist_lat :: "'r list \<Rightarrow> 'r mat \<Rightarrow> int \<Rightarrow> 'r"

text \<open>
  Modelled from the spec: \<open>arb_mat_init\<close> and \<open>_arb_vec_init\<close> are not under src/; they
  allocate a matrix and a vector of freshly initialised balls.
\<close>

definition arb_mat_init :: "('r, 'c) arb_ops \<Rightarrow> int \<Rightarrow> int \<Rightarrow> 'r mat" where
  "arb_mat_init ops r c = \<lparr>mat_r = r, mat_c = c, mat_entries = replicate (nat (r * c)) (op_zero ops)\<rparr>"

definition arb_vec_init :: "('r, 'c) arb_ops \<Rightarrow> int \<Rightarrow> 'r list" where
  "arb_vec_init ops n = replicate (nat n) (op_zero ops)"

text \<open>
  The memory that a call works on. The pointers \<open>dist\<close> and \<open>z\<close> are modelled by the
  cells they give access to (\<open>dist[a]\<close>, \<open>z[i]\<close>), \<open>tau\<close> by the matrix. The four
  scratch variables \<open>Yinv\<close>, \<open>cho\<close>, \<open>v\<close> and \<open>w\<close> are \<open>None\<close> when they hold no
  initialised object (before \<open>init\<close>, after \<open>clear\<close>) and \<open>Some\<close> of their value
  otherwise; an operation on a variable that is \<open>None\<close> is the fault
  \<open>Uninitialised_read\<close>.
\<close>

record ('r, 'c) dist_a0_state =
  s_dist :: "nat \<Rightarrow> 'r"
  s_z :: "nat \<Rightarrow> 'c"
  s_tau :: "'c mat"
  s_Yinv :: "'r mat option"
  s_cho :: "'r mat option"
  s_v :: "'r list option"
  s_w :: "'r list option"

definition rd :: "'a option \<Rightarrow> c_fault + 'a" where
  "rd x = (case x of None \<Rightarrow> Inl Uninitialised_read | Some y \<Rightarrow> Inr y)"

text \<open>
  \<open>1 << g\<close> shifts the \<open>int\<close> constant 1: the operation is undefined in C unless
  \<open>0 \<le> g\<close> and \<open>2\<^sup>g\<close> is a value of \<open>int\<close>, whose width is 32.
\<close>

definition INT_BITS :: nat where
  "INT_BITS = 32"

definition shl_int_1 :: "int \<Rightarrow> c_fault + int" where
  "shl_int_1 g = (if 0 \<le> g \<and> g < int INT_BITS - 1 then Inr (2 ^ nat g) else Inl Undefined_shift)"

subsection \<open>\<open>acb_theta_dist_a0\<close>\<close>

text \<open>
  The body of the loop over the characteristics: its four calls, in order. A call that
  writes to a scratch variable needs the variable to hold an object.
\<close>

definition dist_a0_body ::
  "('r, 'c) arb_ops \<Rightarrow> nat \<Rightarrow> int \<Rightarrow> int \<Rightarrow> ('r, 'c) dist_a0_state \<Rightarrow> c_fault + ('r, 'c) dist_a0_state" where
  "dist_a0_body ops a g prec s =
     seq (rd (s_w s)) (\<lambda>_.
     (let s = s\<lparr>s_w := Some (op_char_get_arb ops a g)\<rparr> in
     seq (rd (s_v s)) (\<lambda>x. seq (rd (s_w s)) (\<lambda>y.
     (let s = s\<lparr>s_w := Some (op_vec_add ops x y g prec)\<rparr> in
     seq (rd (s_cho s)) (\<lambda>C. seq (rd (s_w s)) (\<lambda>y.
     (let s = s\<lparr>s_w := Some (op_mat_vector_mul_col ops C y prec)\<rparr> in
     seq (rd (s_w s)) (\<lambda>y. seq (rd (s_cho s)) (\<lambda>C.
     Inr (s\<lparr>s_dist := (s_dist s)(a := op_dist_lat ops y C prec)\<rparr>)))))))))))"

text \<open>
  \<open>for (a = 0; a < n; a++)\<close>, from the current value of \<open>a\<close>. The counter \<open>a\<close> is an
  \<open>unsigned long\<close> and \<open>n\<close> a \<open>long\<close>: the comparison converts \<open>n\<close> to
  \<open>unsigned long\<close>. In the body \<open>a\<close> is below a value of \<open>unsigned long\<close>, so that
  \<open>a++\<close> never wraps around.
\<close>

function dist_a0_loop ::
  "('r, 'c) arb_ops \<Rightarrow> nat \<Rightarrow> int \<Rightarrow> int \<Rightarrow> int \<Rightarrow> ('r, 'c) dist_a0_state \<Rightarrow> c_fault + ('r, 'c) dist_a0_state" where
  "dist_a0_loop ops a n g prec s =
     (if int a < to_ulong n then
        (case dist_a0_body ops a g prec s of
           Inl e \<Rightarrow> Inl e
         | Inr s' \<Rightarrow> dist_a0_loop ops (Suc a) n g prec s')
      else Inr s)"
  by pat_completeness auto
termination
  by (relation "measure (\<lambda>(ops, a, n, g, prec, s). nat (to_ulong n) - a)") auto

text \<open>
  The function, statement by statement: the shift, the four \<open>init\<close>, the five calls
  before the loop, the loop and the four \<open>clear\<close>.
\<close>

definition acb_theta_dist_a0 ::
  "('r, 'c) arb_ops \<Rightarrow> ('r, 'c) dist_a0_state \<Rightarrow> int \<Rightarrow> c_fault + ('r, 'c) dist_a0_state" where
  "acb_theta_dist_a0 ops s prec =
     (let g = acb_mat_nrows (s_tau s) in
      seq (shl_int_1 g) (\<lambda>n.
      (let s = s\<lparr>s_Yinv := Some (arb_mat_init ops g g)\<rparr>;
           s = s\<lparr>s_cho := Some (arb_mat_init ops g g)\<rparr>;
           s = s\<lparr>s_v := Some (arb_vec_init ops g)\<rparr>;
           s = s\<lparr>s_w := Some (arb_vec_init ops g)\<rparr>
       in
      seq (rd (s_Yinv s)) (\<lambda>_.
      (let s = s\<lparr>s_Yinv := Some (op_mat_get_imag ops (s_tau s))\<rparr> in
      seq (rd (s_Yinv s)) (\<lambda>Y.
      (let s = s\<lparr>s_Yinv := Some (op_mat_inv ops Y prec)\<rparr> in
      seq (rd (s_cho s)) (\<lambda>_.
      (let s = s\<lparr>s_cho := Some (op_eld_cho ops (s_tau s) prec)\<rparr> in
      seq (rd (s_v s)) (\<lambda>_.
      (let s = s\<lparr>s_v := Some (op_vec_get_imag ops (s_z s) g)\<rparr> in
      seq (rd (s_Yinv s)) (\<lambda>Y. seq (rd (s_v s)) (\<lambda>x.
      (let s = s\<lparr>s_v := Some (op_mat_vector_mul_col ops Y x prec)\<rparr> in
      seq (dist_a0_loop ops 0 n g prec s) (\<lambda>s.
      seq (rd (s_Yinv s)) (\<lambda>_.
      (let s = s\<lparr>s_Yinv := None\<rparr> in
      seq (rd (s_cho s)) (\<lambda>_.
      (let s = s\<lparr>s_cho := None\<rparr> in
      seq (rd (s_v s)) (\<lambda>_.
      (let s = s\<lparr>s_v := None\<rparr> in
      seq (rd (s_w s)) (\<lambda>_.
      Inr (s\<lparr>s_w := None\<rparr>)))))))))))))))))))))))"

subsection \<open>The algorithm in the words of the specification\<close>

text \<open>
  The value that the algorithm of the specification stores into the output slot \<open>a\<close>:
  \<open>Yinv\<close> is the certified inverse of the imaginary part of \<open>tau\<close>, \<open>cho\<close> the Cholesky
  factor of the imaginary part of \<open>tau\<close>, \<open>v\<close> is \<open>Yinv\<close> times the imaginary part of
  \<open>z\<close>; the offset vector of \<open>a\<close> is added to \<open>v\<close>, the sum is multiplied by the
  Cholesky factor, and the slot receives the lattice distance of the result.
\<close>

definition dist_a0_entry ::
  "('r, 'c) arb_ops \<Rightarrow> 'r mat \<Rightarrow> 'r list \<Rightarrow> int \<Rightarrow> int \<Rightarrow> nat \<Rightarrow> 'r" where
  "dist_a0_entry ops cho v g prec a =
     op_dist_lat ops
       (op_mat_vector_mul_col ops cho (op_vec_add ops v (op_char_get_arb ops a g) g prec) prec)
       cho prec"

definition dist_a0_spec ::
  "('r, 'c) arb_ops \<Rightarrow> (nat \<Rightarrow> 'r) \<Rightarrow> (nat \<Rightarrow> 'c) \<Rightarrow> 'c mat \<Rightarrow> int \<Rightarrow> nat \<Rightarrow> 'r" where
  "dist_a0_spec ops d z tau prec =
     (let g = acb_mat_nrows tau;
          Yinv = op_mat_inv ops (op_mat_get_imag ops tau) prec;
          cho = op_eld_cho ops tau prec;
          v = op_mat_vector_mul_col ops Yinv (op_vec_get_imag ops z g) prec
      in (\<lambda>a. if a < 2 ^ nat g then dist_a0_entry ops cho v g prec a else d a))"

text \<open>
  The iterations of the loop run for the characteristics of a list, in the order of the
  list: the loop of the source is the run over \<open>0, 1, \<dots>, n - 1\<close>.
\<close>

fun dist_a0_run :: 
  "('r, 'c) arb_ops \<Rightarrow> nat list \<Rightarrow> int \<Rightarrow> int \<Rightarrow> ('r, 'c) dist_a0_state \<Rightarrow> c_fault + ('r, 'c) dist_a0_state" where
  "dist_a0_run ops [] g prec s = Inr s"
| "dist_a0_run ops (a # as) g prec s =
     (case dist_a0_body ops a g prec s of
        Inl e \<Rightarrow> Inl e
      | Inr s' \<Rightarrow> dist_a0_run ops as g prec s')"

text \<open>
  The four calls of the body of the loop, one by one, and the run of a schedule: a list of
  calls, each with the characteristic \<open>a\<close> of the iteration it belongs to. All iterations
  work on the one scratch vector \<open>w\<close> of the function. An iteration run as a whole is
  the schedule of its four calls in order; iterations run in parallel are a schedule that
  interleaves their calls.
\<close>

datatype body_stmt = Char_get_arb | Vec_add | Mat_vector_mul_col | Dist_lat

definition dist_a0_stmt ::
  "('r, 'c) arb_ops \<Rightarrow> body_stmt \<Rightarrow> nat \<Rightarrow> int \<Rightarrow> int \<Rightarrow> ('r, 'c) dist_a0_state \<Rightarrow> c_fault + ('r, 'c) dist_a0_state" where
  "dist_a0_stmt ops st a g prec s =
     (case st of
        Char_get_arb \<Rightarrow>
          seq (rd (s_w s)) (\<lambda>_. Inr (s\<lparr>s_w := Some (op_char_get_arb ops a g)\<rparr>))
      | Vec_add \<Rightarrow>
          seq (rd (s_v s)) (\<lambda>x. seq (rd (s_w s)) (\<lambda>y.
          Inr (s\<lparr>s_w := Some (op_vec_add ops x y g prec)\<rparr>)))
      | Mat_vector_mul_col \<Rightarrow>
          seq (rd (s_cho s)) (\<lambda>C. seq (rd (s_w s)) (\<lambda>y.
          Inr (s\<lparr>s_w := Some (op_mat_vector_mul_col ops C y prec)\<rparr>)))
      | Dist_lat \<Rightarrow>
          seq (rd (s_w s)) (\<lambda>y. seq (rd (s_cho s)) (\<lambda>C.
          Inr (s\<lparr>s_dist := (s_dist s)(a := op_dist_lat ops y C prec)\<rparr>))))"

fun dist_a0_schedule ::
  "('r, 'c) arb_ops \<Rightarrow> (nat \<times> body_stmt) list \<Rightarrow> int \<Rightarrow> int \<Rightarrow> ('r, 'c) dist_a0_state \<Rightarrow> c_fault + ('r, 'c) dist_a0_state" where
  "dist_a0_schedule ops [] g prec s = Inr s"
| "dist_a0_schedule ops ((a, st) # sch) g prec s =
     (case dist_a0_stmt ops st a g prec s of
        Inl e \<Rightarrow> Inl e
      | Inr s' \<Rightarrow> dist_a0_schedule ops sch g prec s')"

text \<open>
  A matrix struct is a square matrix of dimension \<open>g\<close> when it has as many columns as
  rows and one entry for each pair of a row and a column.
\<close>

definition mat_is_square :: "'a mat \<Rightarrow> bool" where
  "mat_is_square m \<longleftrightarrow> mat_c m = mat_r m \<and> length (mat_entries m) = nat (mat_r m * mat_c m)"

text \<open>
  An instance of the operations for dimension one, in exact rational arithmetic (a ball
  is its midpoint, a complex ball the pair of its real and imaginary part): the inverse
  and the Cholesky factor of the matrix \<open>(1)\<close>, and the distance of \<open>x\<close> to the integers,
  squared. It serves to evaluate the model at concrete inputs.
\<close>

definition ops1 :: "(rat, rat \<times> rat) arb_ops" where
  "ops1 = \<lparr>op_zero = 0,
     op_mat_get_imag = (\<lambda>m. \<lparr>mat_r = mat_r m, mat_c = mat_c m, mat_entries = map snd (mat_entries m)\<rparr>),
     op_mat_inv = (\<lambda>m prec. m\<lparr>mat_entries := map inverse (mat_entries m)\<rparr>),
     op_eld_cho = (\<lambda>m prec. \<lparr>mat_r = mat_r m, mat_c = mat_c m, mat_entries = map snd (mat_entries m)\<rparr>),
     op_vec_get_imag = (\<lambda>z g. map (\<lambda>i. snd (z i)) [0..<nat g]),
     op_mat_vector_mul_col = (\<lambda>m x prec. map2 (*) (mat_entries m) x),
     op_char_get_arb = (\<lambda>a g. map (\<lambda>k. if odd (a div 2 ^ k) then 1 / 2 else 0) [0..<nat g]),
     op_vec_add = (\<lambda>x y g prec. map2 (+) x y),
     op_dist_lat = (\<lambda>x m prec. (\<Sum>t\<leftarrow>x. (t - of_int (round t))\<^sup>2))\<rparr>"


text \<open>
  Inputs for the evaluation of the model: the matrix \<open>i I\<close> of dimension \<open>g\<close>, whose
  imaginary part is the identity matrix, and the state at the entry of a call with
  \<open>z = 0\<close>, output cells that hold 7 and no scratch object.
\<close>

definition tau_iI :: "int \<Rightarrow> (rat \<times> rat) mat" where
  "tau_iI g = \<lparr>mat_r = g, mat_c = g,
     mat_entries = map (\<lambda>k. if k mod (nat g + 1) = 0 then (0, 1) else (0, 0)) [0..<nat (g * g)]\<rparr>"

definition entry_state :: "(rat \<times> rat) mat \<Rightarrow> (rat, rat \<times> rat) dist_a0_state" where
  "entry_state tau = \<lparr>s_dist = (\<lambda>a. 7), s_z = (\<lambda>i. (0, 0)), s_tau = tau,
     s_Yinv = None, s_cho = None, s_v = None, s_w = None\<rparr>"


section \<open>Theorems\<close>

subsection \<open>\<open>ca_check_equal\<close>\<close>

lemma fmpq_equal_iff: "fmpq_equal a b \<longleftrightarrow> a = b"
  by (auto simp: fmpq_equal_def fmpq_numref_def fmpq_denref_def prod_eq_iff
      intro: quotient_of_inject)

text \<open>
  C10. \<open>ca_check_equal\<close> decides equality exactly when both operands lie in the rational
  field: when both fields are \<open>CA_FIELD_ID_QQ\<close> it returns \<open>T_TRUE\<close> if the two rationals
  are equal and \<open>T_FALSE\<close> otherwise; when at least one operand is not in the rational
  field it returns \<open>T_UNKNOWN\<close>; and \<open>x\<close>, \<open>y\<close> and the context are what they were.
\<close>

theorem ca_check_equal_decides:
  "(field x = CA_FIELD_ID_QQ \<and> field y = CA_FIELD_ID_QQ \<longrightarrow>
      fst (ca_check_equal x y ctx) = (if CA_FMPQ x = CA_FMPQ y then T_TRUE else T_FALSE)) \<and>
   (field x \<noteq> CA_FIELD_ID_QQ \<or> field y \<noteq> CA_FIELD_ID_QQ \<longrightarrow>
      fst (ca_check_equal x y ctx) = T_UNKNOWN) \<and>
   snd (ca_check_equal x y ctx) = (x, y, ctx)"
  by (simp add: ca_check_equal_def fmpq_equal_iff)

theorem ca_check_equal_decides_witness:
  "field \<lparr>field = 0, elem_q = 1 / 2\<rparr> = CA_FIELD_ID_QQ \<and>
   fst (ca_check_equal \<lparr>field = 0, elem_q = 1 / 2\<rparr> \<lparr>field = 0, elem_q = 2 / 4\<rparr> ()) = T_TRUE \<and>
   fst (ca_check_equal \<lparr>field = 0, elem_q = 1 / 2\<rparr> \<lparr>field = 0, elem_q = 1 / 3\<rparr> ()) = T_FALSE \<and>
   field \<lparr>field = 1, elem_q = 1 / 2\<rparr> \<noteq> CA_FIELD_ID_QQ \<and>
   fst (ca_check_equal \<lparr>field = 0, elem_q = 1 / 2\<rparr> \<lparr>field = 1, elem_q = 1 / 2\<rparr> ()) = T_UNKNOWN"
  using ca_check_equal_decides [of "\<lparr>field = 0, elem_q = 1 / 2\<rparr>" "\<lparr>field = 0, elem_q = 2 / 4\<rparr>" "()"]
    ca_check_equal_decides [of "\<lparr>field = 0, elem_q = 1 / 2\<rparr>" "\<lparr>field = 0, elem_q = 1 / 3\<rparr>" "()"]
    ca_check_equal_decides [of "\<lparr>field = 0, elem_q = 1 / 2\<rparr>" "\<lparr>field = 1, elem_q = 1 / 2\<rparr>" "()"]
  by (simp add: CA_FIELD_ID_QQ_def CA_FMPQ_def)

subsection \<open>The valuation \<open>fmpz_remove\<close>\<close>

declare fmpz_remove.simps [simp del]

lemma fmpz_remove_pow_dvd: "p ^ fmpz_remove x p dvd x"
proof (induction x p rule: fmpz_remove.induct)
  case (1 x p)
  show ?case
  proof (cases "x = 0 \<or> p \<le> 1 \<or> \<not> p dvd x")
    case True
    then show ?thesis by (subst fmpz_remove.simps) auto
  next
    case False
    then have ih: "p ^ fmpz_remove (x div p) p dvd x div p"
      using 1 by blast
    have "p * (x div p) = x" using False by auto
    then have "p * p ^ fmpz_remove (x div p) p dvd x"
      using ih by (metis mult_dvd_mono dvd_refl)
    then show ?thesis using False by (subst fmpz_remove.simps) auto
  qed
qed

lemma fmpz_remove_max: "2 \<le> p \<Longrightarrow> x \<noteq> 0 \<Longrightarrow> p ^ k dvd x \<Longrightarrow> k \<le> fmpz_remove x p"
proof (induction x p arbitrary: k rule: fmpz_remove.induct)
  case (1 x p)
  show ?case
  proof (cases k)
    case 0
    then show ?thesis by simp
  next
    case (Suc j)
    then have d: "p * p ^ j dvd x" using 1 by simp
    then have pd: "p dvd x" by (metis dvd_mult_left)
    have "p ^ j dvd x div p"
      using d pd "1.prems" by (metis dvd_div_iff_mult not_numeral_le_zero mult.commute)
    moreover have "x div p \<noteq> 0" using pd "1.prems" by auto
    ultimately have "j \<le> fmpz_remove (x div p) p"
      using 1 pd by auto
    then show ?thesis using Suc pd "1.prems" by (subst fmpz_remove.simps) auto
  qed
qed

lemma fmpz_remove_dvd_iff:
  "2 \<le> p \<Longrightarrow> x \<noteq> 0 \<Longrightarrow> p ^ k dvd x \<longleftrightarrow> k \<le> fmpz_remove x p"
  using fmpz_remove_max fmpz_remove_pow_dvd
  by (meson dvd_trans le_imp_power_dvd)

lemma fmpz_bits_pos: "x \<noteq> 0 \<Longrightarrow> fmpz_bits x \<noteq> 0"
  by (simp add: fmpz_bits_def)


subsection \<open>\<open>padic_log\<close>\<close>

text \<open>
  C8. \<open>padic_log\<close> returns 0 exactly when the series does not converge: when the
  valuation of \<open>op\<close> is negative, or when \<open>y = 1 - op\<close> is not zero and its \<open>p\<close>-adic
  valuation \<open>v\<close> is less than 2 for \<open>p = 2\<close>, less than 1 for any other \<open>p\<close>. When it
  returns 0, \<open>rop\<close> is what it was; otherwise it returns 1, and \<open>rop\<close> is zero when
  \<open>op = 1\<close> and, among the converging cases, when \<open>v \<ge> N\<close>. This holds for every
  context with \<open>p \<ge> 2\<close> and whatever the two evaluations of the series compute.
\<close>

theorem padic_log_returns:
  assumes "2 \<le> ctx_p ctx"
  shows "\<exists>ans rop'. padic_log S rop op ctx = Inr (ans, rop') \<and>
     (ans = 0 \<longleftrightarrow>
        padic_val op < 0 \<or>
        (1 - padic_get_fmpz op ctx \<noteq> 0 \<and>
         (if ctx_p ctx = 2 then fmpz_remove (1 - padic_get_fmpz op ctx) (ctx_p ctx) < 2
          else fmpz_remove (1 - padic_get_fmpz op ctx) (ctx_p ctx) < 1))) \<and>
     (ans = 0 \<longrightarrow> rop' = rop) \<and>
     (ans \<noteq> 0 \<longrightarrow> ans = 1) \<and>
     (0 \<le> padic_val op \<and> padic_get_fmpz op ctx = 1 \<longrightarrow> ans = 1 \<and> rop' = padic_zero) \<and>
     (ans = 1 \<and> 1 - padic_get_fmpz op ctx \<noteq> 0 \<and>
        ctx_N ctx \<le> int (fmpz_remove (1 - padic_get_fmpz op ctx) (ctx_p ctx)) \<longrightarrow> rop' = padic_zero)"
proof -
  have b: "fmpz_bits (ctx_p ctx) \<noteq> 0"
    using assms by (intro fmpz_bits_pos) simp
  show ?thesis
    using b by (auto simp: padic_log_def Let_def seq_def padic_log_series_def)
qed

theorem padic_log_returns_witness:
  "2 \<le> ctx_p \<lparr>ctx_p = 2, ctx_N = 10\<rparr> \<and>
   padic_log \<lparr>padic_log_rectangular = (\<lambda>y v p N. y), padic_log_balanced = (\<lambda>y v p N. 0)\<rparr>
     \<lparr>padic_unit = 7, padic_val = 3\<rparr> \<lparr>padic_unit = 3, padic_val = 0\<rparr> \<lparr>ctx_p = 2, ctx_N = 10\<rparr>
     = Inr (0, \<lparr>padic_unit = 7, padic_val = 3\<rparr>) \<and>
   fmpz_remove (1 - padic_get_fmpz \<lparr>padic_unit = 3, padic_val = 0\<rparr> \<lparr>ctx_p = 2, ctx_N = 10\<rparr>) 2 = 1 \<and>
   padic_log \<lparr>padic_log_rectangular = (\<lambda>y v p N. y), padic_log_balanced = (\<lambda>y v p N. 0)\<rparr>
     \<lparr>padic_unit = 7, padic_val = 3\<rparr> \<lparr>padic_unit = 1, padic_val = 0\<rparr> \<lparr>ctx_p = 2, ctx_N = 10\<rparr>
     = Inr (1, padic_zero) \<and>
   padic_log \<lparr>padic_log_rectangular = (\<lambda>y v p N. y), padic_log_balanced = (\<lambda>y v p N. 0)\<rparr>
     \<lparr>padic_unit = 7, padic_val = 3\<rparr> \<lparr>padic_unit = 5, padic_val = 0\<rparr> \<lparr>ctx_p = 2, ctx_N = 2\<rparr>
     = Inr (1, padic_zero)"
proof -
  have "padic_log \<lparr>padic_log_rectangular = (\<lambda>y v p N. y), padic_log_balanced = (\<lambda>y v p N. 0)\<rparr>
     \<lparr>padic_unit = 7, padic_val = 3\<rparr> \<lparr>padic_unit = 3, padic_val = 0\<rparr> \<lparr>ctx_p = 2, ctx_N = 10\<rparr>
     = Inr (0, \<lparr>padic_unit = 7, padic_val = 3\<rparr>)"
    by code_simp
  moreover have "fmpz_remove (1 - padic_get_fmpz \<lparr>padic_unit = 3, padic_val = 0\<rparr> \<lparr>ctx_p = 2, ctx_N = 10\<rparr>) 2 = 1"
    by code_simp
  moreover have "padic_log \<lparr>padic_log_rectangular = (\<lambda>y v p N. y), padic_log_balanced = (\<lambda>y v p N. 0)\<rparr>
     \<lparr>padic_unit = 7, padic_val = 3\<rparr> \<lparr>padic_unit = 5, padic_val = 0\<rparr> \<lparr>ctx_p = 2, ctx_N = 2\<rparr>
     = Inr (1, padic_zero)"
    by code_simp
  ultimately show ?thesis
    using padic_log_returns [of "\<lparr>ctx_p = 2, ctx_N = 10\<rparr>"
      "\<lparr>padic_log_rectangular = (\<lambda>y v p N. y), padic_log_balanced = (\<lambda>y v p N. 0)\<rparr>"
      "\<lparr>padic_unit = 7, padic_val = 3\<rparr>" "\<lparr>padic_unit = 1, padic_val = 0\<rparr>"]
    by (auto simp: padic_get_fmpz_def)
qed


subsection \<open>\<open>n_flog\<close> and \<open>n_clog\<close>\<close>

declare n_flog.simps [simp del]

lemma n_flog_le: "2 \<le> b \<Longrightarrow> 1 \<le> n \<Longrightarrow> b ^ n_flog n b \<le> n"
proof (induction n b rule: n_flog.induct)
  case (1 n b)
  show ?case
  proof (cases "n < b")
    case True
    then show ?thesis using "1.prems" by (subst n_flog.simps) simp
  next
    case False
    then have "1 \<le> n div b" using "1.prems"
      by (simp add: Suc_le_eq div_greater_zero_iff)
    then have "b ^ n_flog (n div b) b \<le> n div b"
      using 1 False by simp
    then have "b * b ^ n_flog (n div b) b \<le> b * (n div b)"
      by simp
    also have "\<dots> \<le> n" by simp
    finally show ?thesis using False "1.prems" by (subst n_flog.simps) simp
  qed
qed

lemma n_flog_gt: "2 \<le> b \<Longrightarrow> n < b ^ Suc (n_flog n b)"
proof (induction n b rule: n_flog.induct)
  case (1 n b)
  show ?case
  proof (cases "n < b")
    case True
    then show ?thesis using "1.prems" by (subst n_flog.simps) simp
  next
    case False
    then have "n div b < b ^ Suc (n_flog (n div b) b)"
      using 1 by simp
    then have "n < b ^ Suc (n_flog (n div b) b) * b"
      using "1.prems" by (simp add: div_less_iff_less_mult)
    also have "\<dots> = b ^ Suc (Suc (n_flog (n div b) b))"
      by simp
    finally show ?thesis using False "1.prems" by (subst n_flog.simps) simp
  qed
qed

lemma n_clog_ge: "2 \<le> b \<Longrightarrow> n \<le> b ^ n_clog n b"
  using n_flog_gt [of b "n - 1"] by (auto simp: n_clog_def)

lemma nat_less_two_power: "2 \<le> b \<Longrightarrow> k < (b::nat) ^ k"
proof -
  assume b: "2 \<le> b"
  have "k < 2 ^ k" by simp
  also have "(2::nat) ^ k \<le> b ^ k" using b by (rule power_mono) simp
  finally show ?thesis .
qed

lemma n_flog_less: "2 \<le> b \<Longrightarrow> 1 \<le> n \<Longrightarrow> n_flog n b < n"
  using n_flog_le [of b n] nat_less_two_power [of b "n_flog n b"] by linarith

lemma n_clog_le: "2 \<le> b \<Longrightarrow> n_clog n b \<le> n"
proof (cases "n \<le> 1")
  case True
  then show ?thesis by (simp add: n_clog_def)
next
  case False
  assume "2 \<le> b"
  then have "n_flog (n - 1) b < n - 1" using False by (intro n_flog_less) simp_all
  then show ?thesis using False by (simp add: n_clog_def)
qed

lemma dvd_pow_le_clog:
  assumes "2 \<le> p" "1 \<le> i" "p ^ e dvd i"
  shows "e \<le> n_clog i (p::nat)"
proof -
  have "p ^ e \<le> i" using assms by (simp add: dvd_imp_le)
  also have "i \<le> p ^ n_clog i p" using assms by (simp add: n_clog_ge)
  finally show ?thesis using assms
    by (simp add: power_le_imp_le_exp)
qed

text \<open>
  The estimate of the comment of \<open>_padic_log_bound\<close>: with \<open>c = N - \<lfloor>log\<^sub>p v\<rfloor>\<close>,
  every \<open>i\<close> with \<open>i v \<ge> c + \<lceil>log\<^sub>p c\<rceil> + 1\<close> has \<open>i v - e \<ge> N\<close> for every power
  \<open>p\<^sup>e\<close> that divides \<open>i\<close>.
\<close>

lemma log_bound_estimate:
  fixes p v N i e :: nat
  assumes p: "2 \<le> p" and v: "1 \<le> v" "v < N"
    and i: "N - n_flog v p + n_clog (N - n_flog v p) p + 1 \<le> i * v"
    and e: "p ^ e dvd i" and i1: "1 \<le> i"
  shows "N + e \<le> i * v"
proof -
  define L where "L = n_flog v p"
  define c where "c = N - L"
  define k where "k = n_clog c p"
  have L: "p ^ L \<le> v" unfolding L_def using p v by (simp add: n_flog_le)
  have LN: "L < N" using n_flog_less [of p v] p v unfolding L_def by simp
  then have c1: "1 \<le> c" and cN: "c + L = N" unfolding c_def by simp_all
  have k: "c \<le> p ^ k" unfolding k_def using p by (rule n_clog_ge)
  have kc: "k \<le> c" unfolding k_def using p by (rule n_clog_le)
  have iv: "c + k + 1 \<le> i * v" using i unfolding L_def c_def k_def by simp
  show ?thesis
  proof (cases "e + L \<le> k + 1")
    case True
    then show ?thesis using iv cN by linarith
  next
    case False
    define m where "m = e + L - k"
    have m: "e + L = k + m" "2 \<le> m"
      using False unfolding m_def by simp_all
    have "p ^ e \<le> i" using e i1 by (simp add: dvd_imp_le)
    then have "p ^ e * p ^ L \<le> i * v" using L by (rule mult_le_mono)
    then have 1: "p ^ k * p ^ m \<le> i * v" using m by (simp add: power_add [symmetric])
    have "m + 2 \<le> 2 ^ m" using m(2)
    proof (induction m rule: nat_induct_at_least)
      case base
      then show ?case by simp
    next
      case (Suc n)
      then show ?case by simp
    qed
    also have "(2::nat) ^ m \<le> p ^ m" using p by (rule power_mono) simp
    finally have 2: "m + 2 \<le> p ^ m" .
    have "c * (m + 2) \<le> p ^ k * p ^ m" using k 2 by (rule mult_le_mono)
    moreover have "c + k + m \<le> c * (m + 2)"
    proof -
      obtain c' where "c = Suc c'" using c1 by (cases c) simp_all
      then show ?thesis using kc by simp
    qed
    ultimately have "c + k + m \<le> i * v" using 1 by linarith
    then show ?thesis using m cN by linarith
  qed
qed

subsection \<open>The loop of \<open>_padic_log_bound\<close>\<close>

lemma fmpz_remove_le_clog:
  assumes "2 \<le> p" "1 \<le> i"
  shows "fmpz_remove i p \<le> n_clog (nat i) (nat p)"
proof -
  have "p ^ fmpz_remove i p dvd i" by (rule fmpz_remove_pow_dvd)
  then have "int (nat p ^ fmpz_remove i p) dvd int (nat i)"
    using assms by simp
  then have "nat p ^ fmpz_remove i p dvd nat i"
    by (simp only: int_dvd_int_iff)
  then show ?thesis using assms by (intro dvd_pow_le_clog) simp_all
qed

declare padic_log_bound_loop.simps [simp del]

lemma LONG_MIN_neg: "LONG_MIN < 0"
  by (simp add: LONG_MIN_def)

lemma LONG_MAX_less: "LONG_MAX < 2 ^ FLINT_BITS"
  by (simp add: LONG_MAX_def FLINT_BITS_def)

lemma long_of_Inr: "LONG_MIN \<le> x \<Longrightarrow> x \<le> LONG_MAX \<Longrightarrow> long_of x = Inr x"
  by (simp add: long_of_def)

lemma ulong_of_Inr: "0 \<le> x \<Longrightarrow> x < 2 ^ FLINT_BITS \<Longrightarrow> ulong_of x = Inr (nat x)"
  by (simp add: ulong_of_def)

lemma padic_log_bound_t_eq:
  assumes "2 \<le> b" "1 \<le> v" "b * v \<le> LONG_MAX" "2 \<le> p"
  shows "padic_log_bound_t b v p = Inr (b * v - int (n_clog (nat b) p))"
proof -
  have bv: "0 \<le> b * v" using assms by simp
  have lm: "LONG_MAX < 2 ^ FLINT_BITS" "LONG_MIN \<le> 0"
    by (simp_all add: LONG_MAX_def LONG_MIN_def FLINT_BITS_def)
  have "b \<le> b * v" using assms by (simp add: mult_le_cancel_left1)
  then have b: "b \<le> LONG_MAX" using assms by linarith
  have "int (n_clog (nat b) p) \<le> int (nat b)" using assms n_clog_le [of p "nat b"] by simp
  then have c: "int (n_clog (nat b) p) \<le> b * v" using \<open>b \<le> b * v\<close> assms by linarith
  have 1: "long_of (b * v) = Inr (b * v)"
    using bv assms LONG_MIN_neg by (intro long_of_Inr) linarith+
  have 2: "ulong_of (b * v) = Inr (nat (b * v))"
    using bv assms LONG_MAX_less by (intro ulong_of_Inr) linarith+
  have 3: "ulong_of b = Inr (nat b)"
    using b assms LONG_MAX_less by (intro ulong_of_Inr) linarith+
  have 4: "ulong_of (b * v - int (n_clog (nat b) p)) = Inr (nat (b * v - int (n_clog (nat b) p)))"
    using c assms LONG_MAX_less by (intro ulong_of_Inr) linarith+
  have 5: "long_of (b * v - int (n_clog (nat b) p)) = Inr (b * v - int (n_clog (nat b) p))"
    using c assms LONG_MIN_neg by (intro long_of_Inr) linarith+
  show ?thesis
    using 1 2 3 4 5 bv c
    by (simp add: padic_log_bound_t_def seq_def)
qed

lemma padic_log_bound_loop_ok:
  assumes "2 \<le> p" "1 \<le> v" "1 \<le> b" "b \<le> LONG_MAX" "(b - 1) * v \<le> LONG_MAX"
  shows "\<exists>r. padic_log_bound_loop b v N p = Inr r \<and> 2 \<le> r \<and>
           (\<forall>i. r \<le> i \<and> i < b \<longrightarrow> N \<le> i * v - int (n_clog (nat i) p))"
  using assms
proof (induction b v N p rule: padic_log_bound_loop.induct)
  case (1 b v N p)
  have lo: "long_of (b - 1) = Inr (b - 1)"
    using "1.prems" LONG_MIN_neg by (intro long_of_Inr) linarith+
  show ?case
  proof (cases "2 \<le> b - 1")
    case False
    then show ?thesis
      using lo by (subst padic_log_bound_loop.simps) auto
  next
    case True
    have t: "padic_log_bound_t (b - 1) v p = Inr ((b - 1) * v - int (n_clog (nat (b - 1)) p))"
      using True "1.prems" by (intro padic_log_bound_t_eq) simp_all
    show ?thesis
    proof (cases "(b - 1) * v - int (n_clog (nat (b - 1)) p) < N")
      case lt: True
      have "long_of b = Inr b"
        using "1.prems" LONG_MIN_neg by (intro long_of_Inr) linarith+
      then have "long_of (b - 1 + 1) = Inr b"
        by simp
      then show ?thesis
        using lo t lt True by (subst padic_log_bound_loop.simps) auto
    next
      case ge: False
      have "(b - 1 - 1) * v \<le> (b - 1) * v"
        using "1.prems" by (intro mult_right_mono) simp_all
      then have "(b - 1 - 1) * v \<le> LONG_MAX" "1 \<le> b - 1" "b - 1 \<le> LONG_MAX"
        using "1.prems" True by linarith+
      then have "\<exists>r. padic_log_bound_loop (b - 1) v N p = Inr r \<and> 2 \<le> r \<and>
           (\<forall>i. r \<le> i \<and> i < b - 1 \<longrightarrow> N \<le> i * v - int (n_clog (nat i) p))"
        using "1.IH" [OF lo True t ge] "1.prems"(1,2) by blast
      then obtain r where r: "padic_log_bound_loop (b - 1) v N p = Inr r" "2 \<le> r"
        "\<forall>i. r \<le> i \<and> i < b - 1 \<longrightarrow> N \<le> i * v - int (n_clog (nat i) p)"
        by blast
      have "\<forall>i. r \<le> i \<and> i < b \<longrightarrow> N \<le> i * v - int (n_clog (nat i) p)"
      proof (intro allI impI)
        fix i assume i: "r \<le> i \<and> i < b"
        show "N \<le> i * v - int (n_clog (nat i) p)"
        proof (cases "i < b - 1")
          case True
          then show ?thesis using r(3) i by simp
        next
          case False
          then have "i = b - 1" using i by simp
          then show ?thesis using ge by simp
        qed
      qed
      moreover have "padic_log_bound_loop b v N p = Inr r"
        using lo t ge True r(1) by (subst padic_log_bound_loop.simps) simp
      ultimately show ?thesis using r(2) by blast
    qed
  qed
qed

subsection \<open>\<open>_padic_log_bound\<close>\<close>

lemma ceil_div_mult_ge:
  fixes x v :: int
  assumes "1 \<le> v"
  shows "x \<le> ((x + (v - 1)) div v) * v"
proof -
  have "(x + (v - 1)) mod v \<le> v - 1"
    using assms pos_mod_bound [of v "x + (v - 1)"] by simp
  moreover have "((x + (v - 1)) div v) * v = (x + (v - 1)) - (x + (v - 1)) mod v"
    by (simp add: algebra_simps minus_mod_eq_mult_div)
  ultimately show ?thesis by linarith
qed

lemma seq_Inr: "seq (Inr x) f = f x"
  by (simp add: seq_def)

lemma padic_log_bound_small_prime:
  assumes p: "2 \<le> p" "p \<le> LONG_MAX" and N: "N < 2 ^ (FLINT_BITS - 2)" and v: "1 \<le> v" "v < N"
  shows "\<exists>b. padic_log_bound v N p = Inr b \<and> 2 \<le> b \<and>
           (\<forall>i\<ge>b. N \<le> i * v - int (fmpz_remove i p))"
proof -
  define pn where "pn = nat p"
  define L where "L = n_flog (nat v) pn"
  define c where "c = N - int L"
  define k where "k = n_clog (nat c) pn"
  define s where "s = c + int k + 1 + (v - 1)"
  define b0 where "b0 = s div v"
  have pn: "2 \<le> pn" "int pn = p" using p by (simp_all add: pn_def)
  have N2: "2 * N + 1 \<le> LONG_MAX" "4 * N < 2 ^ FLINT_BITS"
    using N by (simp_all add: LONG_MAX_def FLINT_BITS_def)
  have "L < nat v" unfolding L_def using pn v by (intro n_flog_less) simp_all
  then have L: "int L < v" by simp
  then have c: "2 \<le> c" "c \<le> N" using v by (simp_all add: c_def)
  have "k \<le> nat c" unfolding k_def using pn by (intro n_clog_le) simp
  then have k: "int k \<le> c" using c by simp
  have s: "0 \<le> s" "s \<le> 3 * N" "s = c + int k + v" using c k v by (simp_all add: s_def)
  have "s mod v \<ge> 0" using v by simp
  moreover have "s div v * v = s - s mod v"
    by (simp add: algebra_simps minus_mod_eq_mult_div)
  ultimately have b0v: "b0 * v \<le> s"
    unfolding b0_def by linarith
  have b0ge: "c + int k + 1 \<le> b0 * v"
    unfolding b0_def s_def using v by (intro ceil_div_mult_ge) simp
  have "v \<le> s" using s c k by simp
  then have b01: "1 \<le> b0"
    unfolding b0_def using v zdiv_mono1 [of v s v] by simp
  have "(b0 - 1) * v = b0 * v - v" by (simp add: algebra_simps)
  then have b0m: "(b0 - 1) * v \<le> 2 * N" using b0v s c k by linarith
  have "b0 - 1 \<le> (b0 - 1) * v" using b01 v by (simp add: mult_le_cancel_left1)
  then have b0L: "b0 \<le> LONG_MAX" using b0m N2
    by linarith
  have e1: "ulong_of p = Inr pn"
    unfolding pn_def using p LONG_MAX_less by (intro ulong_of_Inr) linarith+
  have e2: "ulong_of v = Inr (nat v)"
    using v N2 c by (intro ulong_of_Inr) linarith+
  have e3: "ulong_of (N - int L) = Inr (nat c)"
    unfolding c_def [symmetric] using c N2 by (intro ulong_of_Inr) linarith+
  have e4: "long_of (int (nat c)) = Inr c"
    using c N2 LONG_MIN_neg long_of_Inr [of c] by simp
  have e5: "long_of (v - 1) = Inr (v - 1)"
    using v N2 LONG_MIN_neg by (intro long_of_Inr) linarith+
  have e6: "ulong_of (v - 1) = Inr (nat (v - 1))"
    using v N2 by (intro ulong_of_Inr) linarith+
  have "int (nat c) + int k + 1 + int (nat (v - 1)) = s"
    using c v by (simp add: s_def)
  moreover have "ulong_of s = Inr (nat s)"
    using s N2 by (intro ulong_of_Inr) linarith+
  ultimately have e7: "ulong_of (int (nat c) + int k + 1 + int (nat (v - 1))) = Inr (nat s)"
    by simp
  have "int (nat s div nat v) = b0"
    using s v by (simp add: b0_def zdiv_int)
  moreover have "long_of b0 = Inr b0"
    using b01 b0L LONG_MIN_neg by (intro long_of_Inr) linarith+
  ultimately have e8: "long_of (int (nat s div nat v)) = Inr b0"
    by simp
  have fits: "fmpz_fits_si p"
    using p LONG_MIN_neg by (simp add: fmpz_fits_si_def)
  have NA: "\<not> 2 ^ (FLINT_BITS - 2) \<le> N" using N by simp
  have NA: "(2 ^ (FLINT_BITS - 2) \<le> N) = False" using N by simp
  have nz: "(nat v = 0) = False" using v by simp
  have fits: "fmpz_fits_si p = True" using fits by simp
  have run: "padic_log_bound v N p = padic_log_bound_loop b0 v N pn"
    unfolding padic_log_bound_def
    by (simp only: NA fits if_False if_True e1 seq_Inr e2 L_def [symmetric] e3 e4 e5 e6
        k_def [symmetric] e7 nz e8)
  have "(b0 - 1) * v \<le> LONG_MAX" using b0m N2 by linarith
  then obtain r where r: "padic_log_bound_loop b0 v N pn = Inr r" "2 \<le> r"
    "\<forall>i. r \<le> i \<and> i < b0 \<longrightarrow> N \<le> i * v - int (n_clog (nat i) pn)"
    using padic_log_bound_loop_ok [OF pn(1) v(1) b01 b0L, of N] by blast
  have "\<forall>i\<ge>r. N \<le> i * v - int (fmpz_remove i p)"
  proof (intro allI impI)
    fix i assume ir: "r \<le> i"
    then have i1: "1 \<le> i" using r(2) by simp
    show "N \<le> i * v - int (fmpz_remove i p)"
    proof (cases "i < b0")
      case True
      then have "N \<le> i * v - int (n_clog (nat i) pn)" using r(3) ir by simp
      moreover have "fmpz_remove i p \<le> n_clog (nat i) pn"
        unfolding pn_def using p i1 by (intro fmpz_remove_le_clog)
      ultimately show ?thesis by linarith
    next
      case False
      then have "b0 * v \<le> i * v" using v by (intro mult_right_mono) simp_all
      then have iv: "c + int k + 1 \<le> i * v" using b0ge by linarith
      have nc: "nat c = nat N - n_flog (nat v) pn"
        using c unfolding c_def L_def by (simp add: nat_diff_distrib')
      have "int (nat c + k + 1) \<le> int (nat i * nat v)"
        using iv c i1 v by (simp add: nat_mult_distrib)
      then have 1: "nat N - n_flog (nat v) pn + n_clog (nat N - n_flog (nat v) pn) pn + 1
          \<le> nat i * nat v"
        unfolding k_def nc by (simp only: zle_int)
      have "p ^ fmpz_remove i p dvd i" by (rule fmpz_remove_pow_dvd)
      then have "int (pn ^ fmpz_remove i p) dvd int (nat i)"
        using pn i1 by simp
      then have 2: "pn ^ fmpz_remove i p dvd nat i"
        by (simp only: int_dvd_int_iff)
      have "nat N + fmpz_remove i p \<le> nat i * nat v"
        using pn(1) _ _ 1 2 by (rule log_bound_estimate) (use v c i1 in simp_all)
      then have "int (nat N + fmpz_remove i p) \<le> int (nat i * nat v)"
        by (simp only: zle_int)
      then show ?thesis using c i1 v by (simp add: nat_mult_distrib)
    qed
  qed
  then show ?thesis using run r(1,2) by simp
qed

lemma c_div_nonneg: "0 \<le> a \<Longrightarrow> 0 < b \<Longrightarrow> c_div a b = a div b"
  by (cases "a = 0") (simp_all add: c_div_def)

lemma padic_log_bound_large_prime:
  assumes p: "LONG_MAX < p" and N: "N < 2 ^ (FLINT_BITS - 2)" and v: "1 \<le> v" "v < N"
  shows "\<exists>b. padic_log_bound v N p = Inr b \<and> 2 \<le> b \<and>
           (\<forall>i\<ge>b. N \<le> i * v - int (fmpz_remove i p))"
proof -
  define r where "r = (N + v - 1) div v"
  have N2: "2 * N + 1 \<le> LONG_MAX"
    using N by (simp add: LONG_MAX_def FLINT_BITS_def)
  have NA: "(2 ^ (FLINT_BITS - 2) \<le> N) = False" using N by simp
  have nf: "fmpz_fits_si p = False" using p by (simp add: fmpz_fits_si_def)
  have nz: "(v = 0) = False" using v by simp
  have e1: "long_of (N + v) = Inr (N + v)"
    using v N2 LONG_MIN_neg by (intro long_of_Inr) linarith+
  have e2: "long_of (N + v - 1) = Inr (N + v - 1)"
    using v N2 LONG_MIN_neg by (intro long_of_Inr) linarith+
  have e3: "c_div (N + v - 1) v = r"
    unfolding r_def using v by (intro c_div_nonneg) linarith+
  have rv: "N \<le> r * v"
    unfolding r_def using ceil_div_mult_ge [of v N] v by (simp add: algebra_simps)
  have "2 * v \<le> N + v - 1" using v by simp
  then have "(2 * v) div v \<le> (N + v - 1) div v"
    using v by (intro zdiv_mono1) simp_all
  then have r2: "2 \<le> r" unfolding r_def using v by simp
  have "r * v \<le> N + v - 1"
  proof -
    have "(N + v - 1) mod v \<ge> 0" using v by simp
    moreover have "(N + v - 1) div v * v = (N + v - 1) - (N + v - 1) mod v"
      by (simp add: algebra_simps minus_mod_eq_mult_div)
    ultimately show ?thesis unfolding r_def by linarith
  qed
  moreover have "r \<le> r * v" using r2 v by (simp add: mult_le_cancel_left1)
  ultimately have e4: "long_of r = Inr r"
    using r2 N2 v LONG_MIN_neg by (intro long_of_Inr) linarith+
  have run: "padic_log_bound v N p = Inr r"
    unfolding padic_log_bound_def
    by (simp only: NA nf if_False e1 seq_Inr e2 nz e3 e4)
  have "\<forall>i\<ge>r. N \<le> i * v - int (fmpz_remove i p)"
  proof (intro allI impI)
    fix i assume ir: "r \<le> i"
    then have i1: "1 \<le> i" using r2 by simp
    have "r * v \<le> i * v" using ir v by (intro mult_right_mono) simp_all
    then have iv: "N \<le> i * v" using rv by linarith
    define e where "e = fmpz_remove i p"
    show "N \<le> i * v - int (fmpz_remove i p)"
    proof (cases e)
      case 0
      then show ?thesis using iv by (simp add: e_def)
    next
      case (Suc j)
      have p2: "2 \<le> p" "2 ^ (FLINT_BITS - 1) \<le> p"
        using p by (simp_all add: LONG_MAX_def FLINT_BITS_def)
      have "p ^ e dvd i" unfolding e_def by (rule fmpz_remove_pow_dvd)
      then have "p ^ e \<le> i" using i1 by (intro zdvd_imp_le) simp_all
      moreover have "int e \<le> p ^ j"
      proof -
        have "int e \<le> 2 ^ j" unfolding Suc
          by (induction j) simp_all
        also have "(2::int) ^ j \<le> p ^ j" using p2 by (intro power_mono) simp_all
        finally show ?thesis .
      qed
      then have "p * int e \<le> p * p ^ j" using p2 by (intro mult_left_mono) simp_all
      ultimately have "p * int e \<le> i" unfolding Suc by simp
      moreover have "2 ^ (FLINT_BITS - 1) * int e \<le> p * int e"
        using p2 by (intro mult_right_mono) simp_all
      moreover have "i \<le> i * v" using i1 v by (simp add: mult_le_cancel_left1)
      moreover have "N + int e \<le> 2 ^ (FLINT_BITS - 1) * int e"
        using N Suc by (simp add: FLINT_BITS_def)
      ultimately show ?thesis unfolding e_def by linarith
    qed
  qed
  then show ?thesis using run r2 by simp
qed

lemma padic_log_bound_abort:
  "2 ^ (FLINT_BITS - 2) \<le> N \<Longrightarrow> padic_log_bound v N p = Inl Abort"
  by (simp add: padic_log_bound_def)


text \<open>
  C9. For every \<open>p \<ge> 2\<close> (in particular every prime), every \<open>N < 2\<^bsup>FLINT_BITS - 2\<^esup>\<close>
  and every \<open>v\<close> with \<open>1 \<le> v < N\<close> (so also for \<open>2 \<le> v < N\<close> when \<open>p = 2\<close>),
  \<open>_padic_log_bound\<close> returns, with no overflow of a \<open>long\<close> and no wrap-around of an
  \<open>unsigned long\<close>, a bound \<open>b \<ge> 2\<close> such that \<open>i v - ord\<^sub>p(i) \<ge> N\<close> for all
  \<open>i \<ge> b\<close>; when \<open>N \<ge> 2\<^bsup>FLINT_BITS - 2\<^esup>\<close> it aborts.
\<close>

theorem padic_log_bound_correct:
  "(2 \<le> p \<and> 1 \<le> v \<and> v < N \<and> N < 2 ^ (FLINT_BITS - 2) \<longrightarrow>
      (\<exists>b. padic_log_bound v N p = Inr b \<and> 2 \<le> b \<and>
           (\<forall>i\<ge>b. N \<le> i * v - int (fmpz_remove i p)))) \<and>
   (2 ^ (FLINT_BITS - 2) \<le> N \<longrightarrow> padic_log_bound v N p = Inl Abort)"
  using padic_log_bound_small_prime [of p N v] padic_log_bound_large_prime [of p N v]
    padic_log_bound_abort [of N v p]
  by (cases "p \<le> LONG_MAX") auto


theorem padic_log_bound_correct_witness:
  "(2::int) \<le> 3 \<and> (1::int) \<le> 1 \<and> (1::int) < 10 \<and> (10::int) < 2 ^ (FLINT_BITS - 2) \<and>
   padic_log_bound 1 10 3 = Inr 13 \<and>
   \<not> (\<exists>i\<ge>13. i * 1 - int (fmpz_remove i 3) < 10) \<and>
   padic_log_bound 1 (2 ^ 62) 3 = Inl Abort"
proof -
  have "padic_log_bound 1 10 3 = Inr 13"
    by code_simp
  then show ?thesis
    using padic_log_bound_correct [of 3 1 10] padic_log_bound_correct [of 3 1 "2 ^ 62"]
    by (auto simp: FLINT_BITS_def)
qed

subsection \<open>\<open>acb_theta_dist_a0\<close>: what a call computes\<close>

text \<open>
  An iteration of the loop overwrites \<open>w\<close> and the cell \<open>dist[a]\<close>, and nothing else;
  what it stores in \<open>dist[a]\<close> is \<open>dist_a0_entry\<close>, a function of \<open>cho\<close>, \<open>v\<close>,
  \<open>g\<close>, the precision and \<open>a\<close>.
\<close>

declare dist_a0_loop.simps [simp del]

lemma rd_Some: "rd (Some x) = Inr x"
  by (simp add: rd_def)

lemma dist_a0_body_eq:
  assumes "s_v s = Some x" "s_cho s = Some C" "s_w s = Some y"
  shows "dist_a0_body ops a g prec s =
    Inr (s\<lparr>s_w := Some (op_mat_vector_mul_col ops C (op_vec_add ops x (op_char_get_arb ops a g) g prec) prec),
           s_dist := (s_dist s)(a := dist_a0_entry ops C x g prec a)\<rparr>)"
  using assms by (simp add: dist_a0_body_def dist_a0_entry_def rd_Some seq_Inr)

lemma dist_a0_body_schedule:
  "dist_a0_body ops a g prec s =
     dist_a0_schedule ops [(a, Char_get_arb), (a, Vec_add), (a, Mat_vector_mul_col), (a, Dist_lat)] g prec s"
  by (cases "s_w s"; cases "s_v s"; cases "s_cho s")
    (simp_all add: dist_a0_body_def dist_a0_stmt_def seq_def rd_def Let_def)

lemma dist_a0_run_eq:
  assumes "s_v s = Some x" "s_cho s = Some C" "s_w s = Some y"
  shows "\<exists>y'. dist_a0_run ops as g prec s =
     Inr (s\<lparr>s_w := Some y', s_dist := (\<lambda>a. if a \<in> set as then dist_a0_entry ops C x g prec a else s_dist s a)\<rparr>)"
  using assms
proof (induction as arbitrary: s y)
  case Nil
  then show ?case by (intro exI [of _ y]) simp
next
  case (Cons a as)
  define s1 where "s1 = s\<lparr>s_w := Some (op_mat_vector_mul_col ops C (op_vec_add ops x (op_char_get_arb ops a g) g prec) prec),
           s_dist := (s_dist s)(a := dist_a0_entry ops C x g prec a)\<rparr>"
  have b: "dist_a0_body ops a g prec s = Inr s1"
    unfolding s1_def using Cons.prems by (rule dist_a0_body_eq)
  have "s_v s1 = Some x" "s_cho s1 = Some C"
    "s_w s1 = Some (op_mat_vector_mul_col ops C (op_vec_add ops x (op_char_get_arb ops a g) g prec) prec)"
    using Cons.prems by (simp_all add: s1_def)
  from Cons.IH [OF this] obtain y' where
    r: "dist_a0_run ops as g prec s1 =
       Inr (s1\<lparr>s_w := Some y', s_dist := (\<lambda>a. if a \<in> set as then dist_a0_entry ops C x g prec a else s_dist s1 a)\<rparr>)"
    by blast
  have "s1\<lparr>s_w := Some y', s_dist := (\<lambda>a. if a \<in> set as then dist_a0_entry ops C x g prec a else s_dist s1 a)\<rparr>
      = s\<lparr>s_w := Some y', s_dist := (\<lambda>b. if b \<in> set (a # as) then dist_a0_entry ops C x g prec b else s_dist s b)\<rparr>"
    by (auto simp: s1_def fun_eq_iff)
  then show ?case using b r by auto
qed

lemma to_ulong_id: "0 \<le> x \<Longrightarrow> x < 2 ^ FLINT_BITS \<Longrightarrow> to_ulong x = x"
  by (simp add: to_ulong_def)

lemma dist_a0_loop_run:
  "dist_a0_loop ops a n g prec s = dist_a0_run ops [a..<nat (to_ulong n)] g prec s"
proof (induction ops a n g prec s rule: dist_a0_loop.induct)
  case (1 ops a n g prec s)
  show ?case
  proof (cases "int a < to_ulong n")
    case True
    then have "[a..<nat (to_ulong n)] = a # [Suc a..<nat (to_ulong n)]"
      by (intro upt_conv_Cons) simp
    then show ?thesis
      using True 1 by (subst dist_a0_loop.simps) (auto split: sum.splits)
  next
    case False
    then have "[a..<nat (to_ulong n)] = []" by simp
    then show ?thesis using False by (subst dist_a0_loop.simps) simp
  qed
qed

lemma shl_int_1_eq: "0 \<le> g \<Longrightarrow> g \<le> 30 \<Longrightarrow> shl_int_1 g = Inr (2 ^ nat g)"
  by (simp add: shl_int_1_def INT_BITS_def)

lemma shl_int_1_undefined: "\<not> (0 \<le> g \<and> g \<le> 30) \<Longrightarrow> shl_int_1 g = Inl Undefined_shift"
  by (auto simp: shl_int_1_def INT_BITS_def)

lemma acb_theta_dist_a0_eq:
  assumes "0 \<le> acb_mat_nrows (s_tau s)" "acb_mat_nrows (s_tau s) \<le> 30"
  shows "acb_theta_dist_a0 ops s prec =
    Inr (s\<lparr>s_dist := dist_a0_spec ops (s_dist s) (s_z s) (s_tau s) prec,
           s_Yinv := None, s_cho := None, s_v := None, s_w := None\<rparr>)"
proof -
  define g where "g = acb_mat_nrows (s_tau s)"
  define Y where "Y = op_mat_inv ops (op_mat_get_imag ops (s_tau s)) prec"
  define C where "C = op_eld_cho ops (s_tau s) prec"
  define x where "x = op_mat_vector_mul_col ops Y (op_vec_get_imag ops (s_z s) g) prec"
  define s1 where "s1 = s\<lparr>s_w := Some (arb_vec_init ops g), s_Yinv := Some Y, s_cho := Some C, s_v := Some x\<rparr>"
  have n: "shl_int_1 g = Inr (2 ^ nat g)"
    using assms unfolding g_def by (rule shl_int_1_eq)
  have "(2::int) ^ nat g \<le> 2 ^ 30"
    using assms unfolding g_def by (intro power_increasing) simp_all
  then have u: "to_ulong (2 ^ nat g) = 2 ^ nat g"
    by (intro to_ulong_id) (simp_all add: FLINT_BITS_def)
  have "s_v s1 = Some x" "s_cho s1 = Some C" "s_w s1 = Some (arb_vec_init ops g)"
    by (simp_all add: s1_def)
  from dist_a0_run_eq [OF this, of ops "[0..<nat (2 ^ nat g)]" g prec] obtain y' where
    "dist_a0_loop ops 0 (2 ^ nat g) g prec s1 =
      Inr (s1\<lparr>s_w := Some y', s_dist := (\<lambda>a. if a \<in> set [0..<nat (2 ^ nat g)] then dist_a0_entry ops C x g prec a else s_dist s1 a)\<rparr>)"
    unfolding dist_a0_loop_run u by blast
  moreover have "(\<lambda>a. if a \<in> set [0..<nat (2 ^ nat g)] then dist_a0_entry ops C x g prec a else s_dist s1 a)
     = dist_a0_spec ops (s_dist s) (s_z s) (s_tau s) prec"
    by (auto simp: dist_a0_spec_def Let_def s1_def g_def C_def x_def Y_def fun_eq_iff nat_power_eq)
  ultimately have l: "dist_a0_loop ops 0 (2 ^ nat g) g prec s1 =
      Inr (s1\<lparr>s_w := Some y', s_dist := dist_a0_spec ops (s_dist s) (s_z s) (s_tau s) prec\<rparr>)"
    by simp
  have "acb_theta_dist_a0 ops s prec =
     seq (dist_a0_loop ops 0 (2 ^ nat g) g prec s1) (\<lambda>s.
     seq (rd (s_Yinv s)) (\<lambda>_.
     seq (rd (s_cho s)) (\<lambda>_.
     seq (rd (s_v s)) (\<lambda>_.
     seq (rd (s_w s)) (\<lambda>_.
     Inr (s\<lparr>s_Yinv := None, s_cho := None, s_v := None, s_w := None\<rparr>))))))"
    unfolding acb_theta_dist_a0_def g_def [symmetric]
    by (simp add: Let_def n seq_Inr rd_Some s1_def Y_def C_def x_def)
  then have "acb_theta_dist_a0 ops s prec =
     Inr (s1\<lparr>s_w := Some y', s_dist := dist_a0_spec ops (s_dist s) (s_z s) (s_tau s) prec,
       s_Yinv := None, s_cho := None, s_v := None, s_w := None\<rparr>)"
    unfolding l seq_Inr by (simp add: s1_def rd_Some seq_Inr)
  then show ?thesis
    by (simp add: s1_def)
qed

lemma acb_theta_dist_a0_undefined:
  assumes "\<not> (0 \<le> acb_mat_nrows (s_tau s) \<and> acb_mat_nrows (s_tau s) \<le> 30)"
  shows "acb_theta_dist_a0 ops s prec = Inl Undefined_shift"
  using shl_int_1_undefined [OF assms]
  by (simp add: acb_theta_dist_a0_def Let_def seq_def)

lemma nrows_entry_state: "acb_mat_nrows (s_tau (entry_state (tau_iI g))) = g"
  by (simp add: entry_state_def tau_iI_def acb_mat_nrows_def)

lemma round_half: "round (1 / 2 :: rat) = 1"
  by (simp add: round_def)

lemma ops1_entry_0: "dist_a0_spec ops1 (\<lambda>a. 7) (\<lambda>i. (0, 0)) (tau_iI 1) 53 0 = 0"
  by (simp add: dist_a0_spec_def dist_a0_entry_def ops1_def tau_iI_def acb_mat_nrows_def Let_def)

lemma ops1_entry_1: "dist_a0_spec ops1 (\<lambda>a. 7) (\<lambda>i. (0, 0)) (tau_iI 1) 53 1 = 1 / 4"
  by (simp add: dist_a0_spec_def dist_a0_entry_def ops1_def tau_iI_def acb_mat_nrows_def Let_def
      round_half power2_eq_square)

lemma ops1_entry_2: "dist_a0_spec ops1 (\<lambda>a. 7) (\<lambda>i. (0, 0)) (tau_iI 1) 53 2 = 7"
  by (simp add: dist_a0_spec_def dist_a0_entry_def ops1_def tau_iI_def acb_mat_nrows_def Let_def)

text \<open>
  The model run on the matrix \<open>(i)\<close> of dimension one and \<open>z = 0\<close>: the two
  characteristics have the distances 0 and 1/4, the third output cell keeps its value.
\<close>

lemma acb_theta_dist_a0_eval_1:
  "acb_theta_dist_a0 ops1 (entry_state (tau_iI 1)) 53 =
     Inr ((entry_state (tau_iI 1))\<lparr>s_dist := (\<lambda>a. 7)(0 := 0, 1 := 1 / 4)\<rparr>)"
  by (simp add: acb_theta_dist_a0_def entry_state_def tau_iI_def acb_mat_nrows_def shl_int_1_def
      INT_BITS_def Let_def seq_def rd_def arb_mat_init_def arb_vec_init_def ops1_def
      dist_a0_loop.simps dist_a0_body_def to_ulong_def FLINT_BITS_def round_half power2_eq_square)

lemma acb_theta_dist_a0_eval_undefined:
  "31 \<le> g \<Longrightarrow> acb_theta_dist_a0 ops1 (entry_state (tau_iI g)) 53 = Inl Undefined_shift"
  by (simp add: acb_theta_dist_a0_def entry_state_def tau_iI_def acb_mat_nrows_def shl_int_1_def
      INT_BITS_def Let_def seq_def)


text \<open>
  C1 (amended). For every \<open>g \<times> g\<close> complex matrix \<open>tau\<close> (with positive-definite
  imaginary part) with \<open>0 \<le> g \<le> 30\<close>, every complex vector \<open>z\<close> of length \<open>g\<close> and
  every precision, \<open>acb_theta_dist_a0\<close> computes its result by this algorithm: it first
  computes \<open>Yinv\<close> as the certified inverse of the imaginary part of \<open>tau\<close> (once), then
  the Cholesky factor of the imaginary part of \<open>tau\<close> (once), then \<open>v\<close>, the product of
  \<open>Yinv\<close> and the imaginary part of \<open>z\<close> (once); then for each characteristic \<open>a\<close> in
  \<open>[0, 2\<^sup>g)\<close> it derives the offset vector from the bit pattern of \<open>a\<close> (each set bit
  contributing 1/2 to its coordinate: the operation \<open>acb_theta_char_get_arb\<close>), adds
  \<open>v\<close>, multiplies the sum by the Cholesky factor, and stores the lattice distance of the
  result into the output slot \<open>a\<close>. The theorem asks of \<open>tau\<close> that it is a square
  matrix of dimension \<open>g\<close>; the vector \<open>z\<close> is read through its first \<open>g\<close> cells.
\<close>

theorem acb_theta_dist_a0_algorithm:
  assumes "mat_is_square (s_tau s)"
    and "0 \<le> acb_mat_nrows (s_tau s)" "acb_mat_nrows (s_tau s) \<le> 30"
  shows "\<exists>s'. acb_theta_dist_a0 ops s prec = Inr s' \<and>
           s_dist s' = dist_a0_spec ops (s_dist s) (s_z s) (s_tau s) prec"
  using acb_theta_dist_a0_eq [OF assms(2,3), of ops prec] by simp


theorem acb_theta_dist_a0_algorithm_witness:
  "mat_is_square (s_tau (entry_state (tau_iI 1))) \<and>
   0 \<le> acb_mat_nrows (s_tau (entry_state (tau_iI 1))) \<and>
   acb_mat_nrows (s_tau (entry_state (tau_iI 1))) \<le> 30 \<and>
   (\<exists>s'. acb_theta_dist_a0 ops1 (entry_state (tau_iI 1)) 53 = Inr s' \<and>
      s_dist s' 0 = 0 \<and> s_dist s' 1 = 1 / 4 \<and> s_dist s' 2 = 7)"
proof -
  have "\<exists>s'. acb_theta_dist_a0 ops1 (entry_state (tau_iI 1)) 53 = Inr s' \<and>
      s_dist s' 0 = 0 \<and> s_dist s' 1 = 1 / 4 \<and> s_dist s' 2 = 7"
    using acb_theta_dist_a0_eval_1 by simp
  moreover have "mat_is_square (s_tau (entry_state (tau_iI 1)))"
    by (simp add: mat_is_square_def entry_state_def tau_iI_def)
  ultimately show ?thesis
    using acb_theta_dist_a0_algorithm [of "entry_state (tau_iI 1)" ops1 53]
    by (simp add: nrows_entry_state)
qed


text \<open>
  C1 as stated, for every \<open>g\<close>, fails at \<open>g = 31\<close>, for the \<open>31 \<times> 31\<close> matrix \<open>i I\<close>
  (its imaginary part is the identity matrix) and \<open>z = 0\<close>: \<open>1 << 31\<close> is not a value of
  \<open>int\<close>, the call has no defined result.
\<close>

theorem acb_theta_dist_a0_algorithm_counterexample:
  "\<not> (\<exists>s'. acb_theta_dist_a0 ops1 (entry_state (tau_iI 31)) 53 = Inr s' \<and>
      s_dist s' = dist_a0_spec ops1 (s_dist (entry_state (tau_iI 31))) (s_z (entry_state (tau_iI 31)))
        (s_tau (entry_state (tau_iI 31))) 53)"
  by (simp add: acb_theta_dist_a0_eval_undefined)

text \<open>
  C2 (amended). For every input dimension \<open>g\<close> (the number of rows of \<open>tau\<close>) with
  \<open>0 \<le> g \<le> 30\<close>, \<open>acb_theta_dist_a0\<close> writes exactly the \<open>2\<^sup>g\<close> output cells
  \<open>dist[0], \<dots>, dist[2\<^sup>g - 1]\<close>: the cell of index \<open>a\<close> receives the value for the
  characteristic \<open>a\<close>, and every other cell is what it was.
\<close>

theorem acb_theta_dist_a0_output:
  assumes "0 \<le> acb_mat_nrows (s_tau s)" "acb_mat_nrows (s_tau s) \<le> 30"
  shows "\<exists>s'. acb_theta_dist_a0 ops s prec = Inr s' \<and>
     (\<forall>a. a < 2 ^ nat (acb_mat_nrows (s_tau s)) \<longrightarrow>
        s_dist s' a =
          dist_a0_entry ops (op_eld_cho ops (s_tau s) prec)
            (op_mat_vector_mul_col ops (op_mat_inv ops (op_mat_get_imag ops (s_tau s)) prec)
               (op_vec_get_imag ops (s_z s) (acb_mat_nrows (s_tau s))) prec)
            (acb_mat_nrows (s_tau s)) prec a) \<and>
     (\<forall>a. \<not> a < 2 ^ nat (acb_mat_nrows (s_tau s)) \<longrightarrow> s_dist s' a = s_dist s a)"
  using acb_theta_dist_a0_eq [OF assms, of ops prec]
  by (simp add: dist_a0_spec_def Let_def)


theorem acb_theta_dist_a0_output_witness:
  "0 \<le> acb_mat_nrows (s_tau (entry_state (tau_iI 1))) \<and>
   acb_mat_nrows (s_tau (entry_state (tau_iI 1))) \<le> 30 \<and>
   (0::nat) < 2 ^ nat (acb_mat_nrows (s_tau (entry_state (tau_iI 1)))) \<and>
   (1::nat) < 2 ^ nat (acb_mat_nrows (s_tau (entry_state (tau_iI 1)))) \<and>
   \<not> (2::nat) < 2 ^ nat (acb_mat_nrows (s_tau (entry_state (tau_iI 1)))) \<and>
   (\<exists>s'. acb_theta_dist_a0 ops1 (entry_state (tau_iI 1)) 53 = Inr s' \<and>
      s_dist s' 0 = 0 \<and> s_dist s' 1 = 1 / 4 \<and> s_dist s' 2 = s_dist (entry_state (tau_iI 1)) 2)"
proof -
  have "\<exists>s'. acb_theta_dist_a0 ops1 (entry_state (tau_iI 1)) 53 = Inr s' \<and>
      s_dist s' 0 = 0 \<and> s_dist s' 1 = 1 / 4 \<and> s_dist s' 2 = s_dist (entry_state (tau_iI 1)) 2"
    using acb_theta_dist_a0_eval_1 by (simp add: entry_state_def)
  then show ?thesis
    using acb_theta_dist_a0_output [of "entry_state (tau_iI 1)" ops1 53]
    by (simp add: nrows_entry_state)
qed


text \<open>
  C2 as stated, for every \<open>g\<close>, fails at \<open>g = 32\<close>: the shift \<open>1 << 32\<close> of an \<open>int\<close>
  is undefined, and no sequence of \<open>2\<^sup>3\<^sup>2\<close> values is written.
\<close>

theorem acb_theta_dist_a0_output_counterexample:
  "\<not> (\<exists>s'. acb_theta_dist_a0 ops1 (entry_state (tau_iI 32)) 53 = Inr s' \<and>
      (\<forall>a. a < 2 ^ nat (acb_mat_nrows (s_tau (entry_state (tau_iI 32)))) \<longrightarrow>
        s_dist s' a =
          dist_a0_entry ops1 (op_eld_cho ops1 (tau_iI 32) 53)
            (op_mat_vector_mul_col ops1 (op_mat_inv ops1 (op_mat_get_imag ops1 (tau_iI 32)) 53)
               (op_vec_get_imag ops1 (\<lambda>i. (0, 0)) 32) 53) 32 53 a))"
  by (simp add: acb_theta_dist_a0_eval_undefined)


text \<open>
  C5 (amended). The iterations of the loop over the characteristics, each run as a whole,
  are mutually independent. From a state where \<open>v\<close>, \<open>cho\<close> and \<open>w\<close> hold objects, the
  loop of the source returns, and so does the sequential run of the same iterations in any
  order (a list \<open>as\<close> of the characteristics \<open>0, \<dots>, n - 1\<close>), with the same output
  cells; the cell \<open>a\<close> holds \<open>dist_a0_entry\<close>, a function of \<open>a\<close>, \<open>cho\<close>, \<open>v\<close>,
  \<open>g\<close> and the precision only (it depends neither on \<open>w\<close> nor on the output cells at the
  entry of the iteration: no iteration reads state written by a previous one), and
  \<open>Yinv\<close>, \<open>cho\<close> and \<open>v\<close> are not modified.
\<close>

theorem dist_a0_loop_any_order:
  assumes "s_v s = Some x" "s_cho s = Some C" "s_w s = Some y"
    and "0 \<le> n" "n < 2 ^ FLINT_BITS" "set as = {0..<nat n}"
  shows "\<exists>s1 s2. dist_a0_loop ops 0 n g prec s = Inr s1 \<and>
           dist_a0_run ops as g prec s = Inr s2 \<and>
           s_dist s2 = s_dist s1 \<and>
           (\<forall>a. int a < n \<longrightarrow> s_dist s1 a = dist_a0_entry ops C x g prec a) \<and>
           s_Yinv s1 = s_Yinv s \<and> s_cho s1 = s_cho s \<and> s_v s1 = s_v s"
proof -
  from dist_a0_run_eq [OF assms(1-3), of ops "[0..<nat n]" g prec] obtain y1 where
    1: "dist_a0_loop ops 0 n g prec s =
       Inr (s\<lparr>s_w := Some y1, s_dist := (\<lambda>a. if a \<in> set [0..<nat n] then dist_a0_entry ops C x g prec a else s_dist s a)\<rparr>)"
    unfolding dist_a0_loop_run to_ulong_id [OF assms(4,5)] by blast
  from dist_a0_run_eq [OF assms(1-3), of ops as g prec] obtain y2 where
    2: "dist_a0_run ops as g prec s =
       Inr (s\<lparr>s_w := Some y2, s_dist := (\<lambda>a. if a \<in> set as then dist_a0_entry ops C x g prec a else s_dist s a)\<rparr>)"
    by blast
  show ?thesis
    unfolding 1 2 using assms(6) by auto
qed


theorem dist_a0_loop_any_order_witness:
  "(0::int) \<le> 2 \<and> (2::int) < 2 ^ FLINT_BITS \<and> set [1, 0::nat] = {0..<nat 2} \<and>
   (\<exists>s1 s2.
     dist_a0_loop ops1 0 2 1 53
       ((entry_state (tau_iI 1))\<lparr>s_v := Some [0], s_cho := Some \<lparr>mat_r = 1, mat_c = 1, mat_entries = [1]\<rparr>,
          s_w := Some [0]\<rparr>) = Inr s1 \<and>
     dist_a0_run ops1 [1, 0] 1 53
       ((entry_state (tau_iI 1))\<lparr>s_v := Some [0], s_cho := Some \<lparr>mat_r = 1, mat_c = 1, mat_entries = [1]\<rparr>,
          s_w := Some [0]\<rparr>) = Inr s2 \<and>
     s_dist s2 = s_dist s1 \<and> s_dist s1 0 = 0 \<and> s_dist s1 1 = 1 / 4)"
proof -
  have e: "dist_a0_entry ops1 \<lparr>mat_r = 1, mat_c = 1, mat_entries = [1]\<rparr> [0] 1 53 0 = 0"
    "dist_a0_entry ops1 \<lparr>mat_r = 1, mat_c = 1, mat_entries = [1]\<rparr> [0] 1 53 1 = 1 / 4"
    by (simp_all add: dist_a0_entry_def ops1_def round_half power2_eq_square)
  have s: "set [1, 0::nat] = {0..<nat 2}"
    by auto
  show ?thesis
    using dist_a0_loop_any_order [of
        "(entry_state (tau_iI 1))\<lparr>s_v := Some [0], s_cho := Some \<lparr>mat_r = 1, mat_c = 1, mat_entries = [1]\<rparr>,
          s_w := Some [0]\<rparr>" "[0]" "\<lparr>mat_r = 1, mat_c = 1, mat_entries = [1]\<rparr>" "[0]" 2 "[1, 0]" ops1 1 53]
      e s
    by (auto simp: entry_state_def FLINT_BITS_def)
qed

lemma dist_a0_loop_eval_1:
  "dist_a0_loop ops1 0 2 1 53
       ((entry_state (tau_iI 1))\<lparr>s_v := Some [0], s_cho := Some \<lparr>mat_r = 1, mat_c = 1, mat_entries = [1]\<rparr>,
          s_w := Some [0]\<rparr>) =
   Inr ((entry_state (tau_iI 1))\<lparr>s_v := Some [0], s_cho := Some \<lparr>mat_r = 1, mat_c = 1, mat_entries = [1]\<rparr>,
          s_w := Some [1 / 2], s_dist := (\<lambda>a. 7)(0 := 0, 1 := 1 / 4)\<rparr>)"
  by (simp add: entry_state_def tau_iI_def Let_def seq_def rd_def ops1_def dist_a0_loop.simps
      dist_a0_body_def to_ulong_def FLINT_BITS_def round_half power2_eq_square)

lemma dist_a0_schedule_eval_1:
  "dist_a0_schedule ops1
       [(0, Char_get_arb), (1, Char_get_arb), (0, Vec_add), (0, Mat_vector_mul_col), (0, Dist_lat),
        (1, Vec_add), (1, Mat_vector_mul_col), (1, Dist_lat)] 1 53
       ((entry_state (tau_iI 1))\<lparr>s_v := Some [0], s_cho := Some \<lparr>mat_r = 1, mat_c = 1, mat_entries = [1]\<rparr>,
          s_w := Some [0]\<rparr>) =
   Inr ((entry_state (tau_iI 1))\<lparr>s_v := Some [0], s_cho := Some \<lparr>mat_r = 1, mat_c = 1, mat_entries = [1]\<rparr>,
          s_w := Some [1 / 2], s_dist := (\<lambda>a. 7)(0 := 1 / 4, 1 := 1 / 4)\<rparr>)"
  by (simp add: entry_state_def tau_iI_def Let_def seq_def rd_def ops1_def
      dist_a0_stmt_def round_half power2_eq_square)

text \<open>
  C5 as stated, with the iterations run in parallel, fails: the iterations share the
  scratch vector \<open>w\<close>. For dimension one, \<open>v = 0\<close> and the Cholesky factor \<open>(1)\<close>, the
  schedule that runs the first call of the iteration 1 between the first and the second
  call of the iteration 0 (and keeps the order of the calls of each iteration) stores 1/4
  into the output cell 0, where the loop stores 0.
\<close>

theorem dist_a0_loop_any_order_counterexample:
  "\<not> (\<exists>s1 s2.
     dist_a0_loop ops1 0 2 1 53
       ((entry_state (tau_iI 1))\<lparr>s_v := Some [0], s_cho := Some \<lparr>mat_r = 1, mat_c = 1, mat_entries = [1]\<rparr>,
          s_w := Some [0]\<rparr>) = Inr s1 \<and>
     dist_a0_schedule ops1
       [(0, Char_get_arb), (1, Char_get_arb), (0, Vec_add), (0, Mat_vector_mul_col), (0, Dist_lat),
        (1, Vec_add), (1, Mat_vector_mul_col), (1, Dist_lat)] 1 53
       ((entry_state (tau_iI 1))\<lparr>s_v := Some [0], s_cho := Some \<lparr>mat_r = 1, mat_c = 1, mat_entries = [1]\<rparr>,
          s_w := Some [0]\<rparr>) = Inr s2 \<and>
     s_dist s2 = s_dist s1)"
proof -
  have "(\<lambda>a::nat. 7 :: rat)(0 := 1 / 4, 1 := 1 / 4) \<noteq> (\<lambda>a. 7)(0 := 0, 1 := 1 / 4)"
    by (auto simp: fun_eq_iff)
  then show ?thesis
    unfolding dist_a0_loop_eval_1 dist_a0_schedule_eval_1 by simp
qed

text \<open>
  C6 (amended). \<open>acb_theta_dist_a0\<close> has no failure path: for every input whose
  dimension \<open>g\<close> satisfies \<open>0 \<le> g \<le> 30\<close> (including inputs that violate the
  preconditions, such as an imaginary part that is not positive definite or mismatched
  dimensions: whatever \<open>tau\<close>, \<open>z\<close>, the precision and the memory at entry are) it
  performs no runtime precondition check, signals no error and always terminates producing
  a result; a precondition violation yields a meaningless result, not a signalled error.
  For no input at all does the call abort.
\<close>

theorem acb_theta_dist_a0_returns:
  "(0 \<le> acb_mat_nrows (s_tau s) \<and> acb_mat_nrows (s_tau s) \<le> 30 \<longrightarrow>
      (\<exists>s'. acb_theta_dist_a0 ops s prec = Inr s')) \<and>
   acb_theta_dist_a0 ops s prec \<noteq> Inl Abort"
proof (cases "0 \<le> acb_mat_nrows (s_tau s) \<and> acb_mat_nrows (s_tau s) \<le> 30")
  case True
  then show ?thesis using acb_theta_dist_a0_eq [of s ops prec] by simp
next
  case False
  then show ?thesis using acb_theta_dist_a0_undefined [of s ops prec] by simp
qed


text \<open>
  The witness runs the call on the matrix \<open>(0)\<close> of dimension one, whose imaginary part is
  not positive definite: the call returns, with distances that mean nothing.
\<close>

theorem acb_theta_dist_a0_returns_witness:
  "0 \<le> acb_mat_nrows (s_tau (entry_state \<lparr>mat_r = 1, mat_c = 1, mat_entries = [(0, 0)]\<rparr>)) \<and>
   acb_mat_nrows (s_tau (entry_state \<lparr>mat_r = 1, mat_c = 1, mat_entries = [(0, 0)]\<rparr>)) \<le> 30 \<and>
   acb_theta_dist_a0 ops1 (entry_state \<lparr>mat_r = 1, mat_c = 1, mat_entries = [(0, 0)]\<rparr>) 53 =
     Inr ((entry_state \<lparr>mat_r = 1, mat_c = 1, mat_entries = [(0, 0)]\<rparr>)
            \<lparr>s_dist := (\<lambda>a. 7)(0 := 0, 1 := 0)\<rparr>)"
proof -
  have "acb_theta_dist_a0 ops1 (entry_state \<lparr>mat_r = 1, mat_c = 1, mat_entries = [(0, 0)]\<rparr>) 53 =
     Inr ((entry_state \<lparr>mat_r = 1, mat_c = 1, mat_entries = [(0, 0)]\<rparr>)
            \<lparr>s_dist := (\<lambda>a. 7)(0 := 0, 1 := 0)\<rparr>)"
    by (simp add: acb_theta_dist_a0_def entry_state_def acb_mat_nrows_def shl_int_1_def
        INT_BITS_def Let_def seq_def rd_def arb_mat_init_def arb_vec_init_def ops1_def
        dist_a0_loop.simps dist_a0_body_def to_ulong_def FLINT_BITS_def)
  then show ?thesis
    using acb_theta_dist_a0_returns [of "entry_state \<lparr>mat_r = 1, mat_c = 1, mat_entries = [(0, 0)]\<rparr>" ops1 53]
    by (simp add: entry_state_def acb_mat_nrows_def)
qed


text \<open>
  C6 as stated, for every input, fails at \<open>g = 31\<close>: \<open>1 << 31\<close> is not a value of
  \<open>int\<close>, and the call does not terminate with a result.
\<close>

theorem acb_theta_dist_a0_returns_counterexample:
  "\<not> (\<exists>s'. acb_theta_dist_a0 ops1 (entry_state (tau_iI 31)) 128 = Inr s')"
  by (simp add: acb_theta_dist_a0_def entry_state_def tau_iI_def acb_mat_nrows_def shl_int_1_def
      INT_BITS_def Let_def seq_def)


text \<open>
  C7. \<open>acb_theta_dist_a0\<close> has no side effect but on the output cells: whenever it
  returns, \<open>z\<close> and \<open>tau\<close> are what they were and the four scratch variables
  \<open>Yinv\<close>, \<open>cho\<close>, \<open>v\<close>, \<open>w\<close> hold no object any more (and it returns for every
  \<open>0 \<le> g \<le> 30\<close>); no scratch variable is used before it is initialised; and the outcome
  of a call does not depend on what the scratch variables hold at entry, so that no state
  is carried from one call to the next.
\<close>

theorem acb_theta_dist_a0_frame:
  "(\<forall>s'. acb_theta_dist_a0 ops s prec = Inr s' \<longrightarrow>
      s_z s' = s_z s \<and> s_tau s' = s_tau s \<and>
      s_Yinv s' = None \<and> s_cho s' = None \<and> s_v s' = None \<and> s_w s' = None) \<and>
   (0 \<le> acb_mat_nrows (s_tau s) \<and> acb_mat_nrows (s_tau s) \<le> 30 \<longrightarrow>
      (\<exists>s'. acb_theta_dist_a0 ops s prec = Inr s')) \<and>
   acb_theta_dist_a0 ops s prec \<noteq> Inl Uninitialised_read \<and>
   acb_theta_dist_a0 ops (s\<lparr>s_Yinv := Y0, s_cho := C0, s_v := v0, s_w := w0\<rparr>) prec =
     acb_theta_dist_a0 ops s prec"
proof (cases "0 \<le> acb_mat_nrows (s_tau s) \<and> acb_mat_nrows (s_tau s) \<le> 30")
  case True
  then show ?thesis
    using acb_theta_dist_a0_eq [of s ops prec]
      acb_theta_dist_a0_eq [of "s\<lparr>s_Yinv := Y0, s_cho := C0, s_v := v0, s_w := w0\<rparr>" ops prec]
    by simp
next
  case False
  then show ?thesis
    using acb_theta_dist_a0_undefined [of s ops prec]
      acb_theta_dist_a0_undefined [of "s\<lparr>s_Yinv := Y0, s_cho := C0, s_v := v0, s_w := w0\<rparr>" ops prec]
    by simp
qed


theorem acb_theta_dist_a0_frame_witness:
  "0 \<le> acb_mat_nrows (s_tau (entry_state (tau_iI 1))) \<and>
   acb_mat_nrows (s_tau (entry_state (tau_iI 1))) \<le> 30 \<and>
   (\<exists>s'. acb_theta_dist_a0 ops1 (entry_state (tau_iI 1)) 53 = Inr s' \<and>
      s_z s' = (\<lambda>i. (0, 0)) \<and> s_tau s' = tau_iI 1 \<and>
      s_Yinv s' = None \<and> s_cho s' = None \<and> s_v s' = None \<and> s_w s' = None)"
proof -
  have "\<exists>s'. acb_theta_dist_a0 ops1 (entry_state (tau_iI 1)) 53 = Inr s' \<and>
      s_z s' = (\<lambda>i. (0, 0)) \<and> s_tau s' = tau_iI 1 \<and>
      s_Yinv s' = None \<and> s_cho s' = None \<and> s_v s' = None \<and> s_w s' = None"
    using acb_theta_dist_a0_eval_1 by (simp add: entry_state_def)
  then show ?thesis
    using acb_theta_dist_a0_frame [of ops1 "entry_state (tau_iI 1)" 53 None None None None]
    by (simp add: nrows_entry_state)
qed

end
